theory Spec2Isabelle
  imports Main
begin

section \<open>Environment: allocation and throwing steps\<close>

text \<open>
  The element type \<open>Type\<close> of the templates is a type variable \<open>'a\<close>; its
  value-initialised object \<open>Type()\<close> is the parameter \<open>d\<close> of every function that
  constructs elements.  A move assignment \<open>a = std::move(b)\<close> of elements gives \<open>a\<close>
  the value \<open>x\<close> of \<open>b\<close> and leaves \<open>b\<close> with \<open>mv x\<close>; the moved-from state \<open>mv\<close> is
  the second parameter of every function that moves elements.  It is the identity for
  scalar types and for classes that declare copy operations only.

  Sizes (\<open>size_t\<close>) are natural numbers: a block of \<open>2^63\<close> or more elements cannot be
  allocated, so neither \<open>capacity_ * 2\<close> nor \<open>size_ + 1\<close> wraps on a vector that exists.

  Every step that can throw in C++ (\<open>operator new[]\<close>, a constructor, an element
  assignment) asks the environment first.  \<open>throw_after = Some k\<close> lets the next
  \<open>k\<close> such steps succeed and makes the one after them throw; \<open>None\<close> lets every
  step succeed.  Since an operation stops at its first exception, this describes every
  way a single call can fail.  \<open>next_addr\<close> is the address the next allocation returns.
\<close>

type_synonym addr = nat

record env =
  next_addr :: addr
  throw_after :: "nat option"

datatype error = BadAlloc | ElemThrow

text \<open>
  The result of running a piece of code: it returns (\<open>Done\<close>), it leaves by an
  exception (\<open>Raised\<close>, with the state of the objects that outlive the call), it has
  undefined behaviour (an access through \<open>nullptr\<close> or outside the block), or the
  process is stopped (a failed \<open>assert\<close>, an exception leaving a \<open>noexcept\<close>
  function).
\<close>

datatype ('r, 's) outcome = Done 'r | Raised error 's | Undefined | Aborted

definition attempt :: "env \<Rightarrow> env option" where
  "attempt E = (case throw_after E of
                  None \<Rightarrow> Some E
                | Some 0 \<Rightarrow> None
                | Some (Suc k) \<Rightarrow> Some (E\<lparr>throw_after := Some k\<rparr>))"

fun attempts :: "nat \<Rightarrow> env \<Rightarrow> env option" where
  "attempts 0 E = Some E"
| "attempts (Suc n) E = (case attempt E of None \<Rightarrow> None | Some E' \<Rightarrow> attempts n E')"

section \<open>Raw pointers and the algorithms of the standard library\<close>

text \<open>
  A value of type \<open>Type*\<close> is \<open>nullptr\<close> or points to the first cell of a heap block.
  Each block has one owner at a time, so the pointer is modelled together with the block:
  the address identifies it (pointer comparison), the list holds its cells.  An iterator
  is an offset from \<open>begin()\<close>.
\<close>

datatype 'a raw = Null | Array addr "'a list"

fun address :: "'a raw \<Rightarrow> addr option" where
  "address Null = None"
| "address (Array a xs) = Some a"

fun cells :: "'a raw \<Rightarrow> 'a list" where
  "cells Null = []"
| "cells (Array a xs) = xs"

text \<open>Reading and writing \<open>p[i]\<close>; \<open>None\<close> is undefined behaviour.\<close>

fun load :: "'a raw \<Rightarrow> nat \<Rightarrow> 'a option" where
  "load Null i = None"
| "load (Array a xs) i = (if i < length xs then Some (xs ! i) else None)"

fun store :: "'a raw \<Rightarrow> nat \<Rightarrow> 'a \<Rightarrow> 'a raw option" where
  "store Null i x = None"
| "store (Array a xs) i x = (if i < length xs then Some (Array a (xs[i := x])) else None)"

text \<open>\<open>new Type[n]{}\<close>: one allocation, then \<open>n\<close> value-initialisations.\<close>

definition new_array :: "'a \<Rightarrow> nat \<Rightarrow> env \<Rightarrow> ('a raw \<times> env, unit) outcome" where
  "new_array d n E =
     (case attempt E of
        None \<Rightarrow> Raised BadAlloc ()
      | Some E1 \<Rightarrow>
          (case attempts n E1 of
             None \<Rightarrow> Raised ElemThrow ()
           | Some E2 \<Rightarrow> Done (Array (next_addr E2) (replicate n d),
                             E2\<lparr>next_addr := Suc (next_addr E2)\<rparr>)))"

text \<open>\<open>p[i] = x\<close> for one element.\<close>

definition assign_at :: "'a raw \<Rightarrow> nat \<Rightarrow> 'a \<Rightarrow> env \<Rightarrow> ('a raw \<times> env, 'a raw) outcome" where
  "assign_at p i x E =
     (case store p i x of
        None \<Rightarrow> Undefined
      | Some p' \<Rightarrow> (case attempt E of None \<Rightarrow> Raised ElemThrow p | Some E' \<Rightarrow> Done (p', E')))"

text \<open>
  \<open>std::generate(p + f, p + l, [](){return Type();})\<close> and
  \<open>std::fill(p + f, p + l, value)\<close>: one construction or assignment per cell.
\<close>

function generate :: "'a raw \<Rightarrow> nat \<Rightarrow> nat \<Rightarrow> 'a \<Rightarrow> env \<Rightarrow> ('a raw \<times> env, 'a raw) outcome" where
  "generate p f l d E =
     (if f = l then Done (p, E)
      else if l < f then Undefined
      else (case attempt E of
              None \<Rightarrow> Raised ElemThrow p
            | Some E' \<Rightarrow>
                (case store p f d of
                   None \<Rightarrow> Undefined
                 | Some p' \<Rightarrow> generate p' (Suc f) l d E')))"
  by pat_completeness auto
termination
  by (relation "measure (\<lambda>(p, f, l, d, E). l - f)") auto

text \<open>\<open>std::copy(s + f, s + l, t + o)\<close> between two blocks.\<close>

function std_copy :: "'a raw \<Rightarrow> nat \<Rightarrow> nat \<Rightarrow> 'a raw \<Rightarrow> nat \<Rightarrow> env \<Rightarrow> ('a raw \<times> env, 'a raw) outcome" where
  "std_copy s f l t o' E =
     (if f = l then Done (t, E)
      else if l < f then Undefined
      else (case load s f of
              None \<Rightarrow> Undefined
            | Some x \<Rightarrow>
                (case assign_at t o' x E of
                   Done (t', E') \<Rightarrow> std_copy s (Suc f) l t' (Suc o') E'
                 | Raised e t' \<Rightarrow> Raised e t'
                 | Undefined \<Rightarrow> Undefined
                 | Aborted \<Rightarrow> Aborted)))"
  by pat_completeness auto
termination
  by (relation "measure (\<lambda>(s, f, l, t, o', E). l - f)") auto

text \<open>
  \<open>std::move(s + f, s + l, t + o)\<close> between two blocks: the same loop with a move
  assignment, which leaves each source cell moved-from.  The result carries the source
  block and the destination block.
\<close>

function std_move :: "('a \<Rightarrow> 'a) \<Rightarrow> 'a raw \<Rightarrow> nat \<Rightarrow> nat \<Rightarrow> 'a raw \<Rightarrow> nat \<Rightarrow> env \<Rightarrow> ('a raw \<times> 'a raw \<times> env, 'a raw \<times> 'a raw) outcome" where
  "std_move mv s f l t o' E =
     (if f = l then Done (s, t, E)
      else if l < f then Undefined
      else (case load s f of
              None \<Rightarrow> Undefined
            | Some x \<Rightarrow>
                (case assign_at t o' x E of
                   Done (t', E') \<Rightarrow>
                     (case store s f (mv x) of
                        None \<Rightarrow> Undefined
                      | Some s' \<Rightarrow> std_move mv s' (Suc f) l t' (Suc o') E')
                 | Raised e t' \<Rightarrow> Raised e (s, t')
                 | Undefined \<Rightarrow> Undefined
                 | Aborted \<Rightarrow> Aborted)))"
  by pat_completeness auto
termination
  by (relation "measure (\<lambda>(mv, s, f, l, t, o', E). l - f)") auto

text \<open>
  \<open>std::copy_backward(p + f, p + l, p + dl)\<close> inside one block:
  \<open>while (first != last) *(--d_last) = *(--last);\<close>
\<close>

function std_copy_backward :: "'a raw \<Rightarrow> nat \<Rightarrow> nat \<Rightarrow> nat \<Rightarrow> env \<Rightarrow> ('a raw \<times> env, 'a raw) outcome" where
  "std_copy_backward p f l dl E =
     (if f = l then Done (p, E)
      else if l < f \<or> dl = 0 then Undefined
      else (case load p (l - 1) of
              None \<Rightarrow> Undefined
            | Some x \<Rightarrow>
                (case assign_at p (dl - 1) x E of
                   Done (p', E') \<Rightarrow> std_copy_backward p' f (l - 1) (dl - 1) E'
                 | Raised e p' \<Rightarrow> Raised e p'
                 | Undefined \<Rightarrow> Undefined
                 | Aborted \<Rightarrow> Aborted)))"
  by pat_completeness auto
termination
  by (relation "measure (\<lambda>(p, f, l, dl, E). l - f)") auto


text \<open>
  An argument passed by reference (\<open>const Type&\<close> or \<open>Type&&\<close>) names an object outside
  the vector with the value \<open>x\<close>, or the cell at offset \<open>i\<close> of the block the vector
  owns when the call starts.  \<open>arg_load p a\<close> reads the argument when that block is in the
  state \<open>p\<close>.
\<close>

datatype 'a arg = Value 'a | Element nat

fun arg_load :: "'a raw \<Rightarrow> 'a arg \<Rightarrow> 'a option" where
  "arg_load p (Value x) = Some x"
| "arg_load p (Element i) = load p i"


text \<open>
  \<open>p[i] = std::move(value)\<close> where \<open>value\<close> may name a cell of \<open>p\<close> itself.  A cell
  moved to itself is left moved-from, like the source of any other move.
\<close>

definition move_arg_within :: "('a \<Rightarrow> 'a) \<Rightarrow> 'a raw \<Rightarrow> 'a arg \<Rightarrow> nat \<Rightarrow> env \<Rightarrow> ('a raw \<times> env, 'a raw) outcome" where
  "move_arg_within mv p a i E =
     (case arg_load p a of
        None \<Rightarrow> Undefined
      | Some x \<Rightarrow>
          (case assign_at p i x E of
             Done (p', E') \<Rightarrow>
               (case a of
                  Value y \<Rightarrow> Done (p', E')
                | Element k \<Rightarrow>
                    (case store p' k (mv x) of
                       None \<Rightarrow> Undefined
                     | Some p'' \<Rightarrow> Done (p'', E')))
           | Raised e p' \<Rightarrow> Raised e p'
           | Undefined \<Rightarrow> Undefined
           | Aborted \<Rightarrow> Aborted))"

section \<open>ArrayPtr (array\_ptr.h)\<close>

text \<open>
  The members \<open>raw_ptr_\<close> and \<open>capacity_\<close> of the class (a field name cannot end
  with an underscore here, and \<open>capacity\<close> is kept for the vector).
\<close>

record 'a ArrayPtr =
  raw_ptr :: "'a raw"
  ap_capacity :: nat

text \<open>
  A reference parameter of the class's own type names the object itself or a distinct
  object.  \<open>aliases rhs\<close> is the comparison \<open>&rhs == this\<close>, and
  \<open>referent this rhs\<close> is the object \<open>rhs\<close> names when \<open>*this\<close> is in the state
  \<open>this\<close>.
\<close>

datatype 'o ref = Self | Other 'o

fun aliases :: "'o ref \<Rightarrow> bool" where
  "aliases Self = True"
| "aliases (Other other) = False"

fun referent :: "'o \<Rightarrow> 'o ref \<Rightarrow> 'o" where
  "referent this Self = this"
| "referent this (Other other) = other"

text \<open>\<open>ArrayPtr() = default\<close>\<close>

definition ArrayPtr_default :: "'a ArrayPtr" where
  "ArrayPtr_default = \<lparr>raw_ptr = Null, ap_capacity = 0\<rparr>"

text \<open>\<open>explicit ArrayPtr(size_t size)\<close>\<close>

definition ArrayPtr_size :: "'a \<Rightarrow> nat \<Rightarrow> env \<Rightarrow> ('a ArrayPtr \<times> env, unit) outcome" where
  "ArrayPtr_size d n E =
     (if n > 0 then
        (case new_array d n E of
           Done (p, E') \<Rightarrow> Done (ArrayPtr_default\<lparr>raw_ptr := p, ap_capacity := n\<rparr>, E')
         | Raised e u \<Rightarrow> Raised e u
         | Undefined \<Rightarrow> Undefined
         | Aborted \<Rightarrow> Aborted)
      else Done (ArrayPtr_default, E))"

text \<open>\<open>explicit ArrayPtr(Type* raw_ptr) noexcept\<close>\<close>

definition ArrayPtr_raw :: "'a raw \<Rightarrow> 'a ArrayPtr" where
  "ArrayPtr_raw p = ArrayPtr_default\<lparr>raw_ptr := p\<rparr>"

text \<open>\<open>void swap(ArrayPtr& other) noexcept\<close>, \<open>other\<close> a distinct object.\<close>

definition ArrayPtr_swap :: "'a ArrayPtr \<Rightarrow> 'a ArrayPtr \<Rightarrow> 'a ArrayPtr \<times> 'a ArrayPtr" where
  "ArrayPtr_swap this other =
     (this\<lparr>raw_ptr := raw_ptr other, ap_capacity := ap_capacity other\<rparr>,
      other\<lparr>raw_ptr := raw_ptr this, ap_capacity := ap_capacity this\<rparr>)"

text \<open>\<open>ArrayPtr& operator=(ArrayPtr&& rhs)\<close>\<close>

definition ArrayPtr_move_assign :: "'a ArrayPtr \<Rightarrow> 'a ArrayPtr ref \<Rightarrow> 'a ArrayPtr \<times> 'a ArrayPtr ref" where
  "ArrayPtr_move_assign this rhs =
     (if \<not> aliases rhs then
        (case ArrayPtr_swap this (referent this rhs) of (this', rhs') \<Rightarrow> (this', Other rhs'))
      else (this, rhs))"

text \<open>\<open>ArrayPtr(ArrayPtr&& other)\<close>: \<open>*this = std::move(other)\<close> on the new object.\<close>

definition ArrayPtr_move :: "'a ArrayPtr \<Rightarrow> 'a ArrayPtr \<times> 'a ArrayPtr" where
  "ArrayPtr_move other =
     (case ArrayPtr_move_assign ArrayPtr_default (Other other) of
        (this', Other other') \<Rightarrow> (this', other')
      | (this', Self) \<Rightarrow> (this', other))"

text \<open>\<open>void Delete()\<close>: the block is freed.\<close>

definition Delete :: "'a ArrayPtr \<Rightarrow> 'a ArrayPtr" where
  "Delete this = this\<lparr>raw_ptr := Null\<rparr>"

text \<open>\<open>Type* Release() noexcept\<close>: the returned pointer and the object afterwards.\<close>

definition Release :: "'a ArrayPtr \<Rightarrow> 'a raw \<times> 'a ArrayPtr" where
  "Release this = (let tmp_ptr = raw_ptr this in (tmp_ptr, this\<lparr>raw_ptr := Null\<rparr>))"

text \<open>
  \<open>Type* Get() const noexcept\<close> and \<open>explicit operator bool() const\<close>.
  \<open>operator[]\<close> is \<open>raw_ptr_[index]\<close>: a read or a write through \<open>Get\<close>.
\<close>

definition Get :: "'a ArrayPtr \<Rightarrow> 'a raw" where
  "Get this = raw_ptr this"

definition to_bool :: "'a ArrayPtr \<Rightarrow> bool" where
  "to_bool this = (raw_ptr this \<noteq> Null)"

section \<open>SimpleVector (simple\_vector.h)\<close>

text \<open>
  The members \<open>items_\<close>, \<open>size_\<close> and \<open>capacity_\<close>.  \<open>begin()\<close> is
  \<open>Get (items this)\<close> with offset \<open>0\<close>, \<open>end()\<close> the same pointer with offset
  \<open>vsize this\<close>.  A member function takes the state of \<open>*this\<close> and returns the
  state after the call; when it leaves by an exception, \<open>Raised\<close> carries the state
  \<open>*this\<close> is left in.  The fill constructor, \<open>At\<close>, \<open>PopBack\<close>, \<open>Erase\<close> and the
  comparison operators are not part of the properties below and are left out.
\<close>

record 'a SimpleVector =
  items :: "'a ArrayPtr"
  vsize :: nat
  capacity :: nat

text \<open>The block of the vector after the writes through \<open>begin()\<close> that produced \<open>p\<close>.\<close>

definition with_block :: "'a SimpleVector \<Rightarrow> 'a raw \<Rightarrow> 'a SimpleVector" where
  "with_block this p = this\<lparr>items := (items this)\<lparr>raw_ptr := p\<rparr>\<rparr>"

text \<open>\<open>SimpleVector() noexcept = default\<close>\<close>

definition SimpleVector_default :: "'a SimpleVector" where
  "SimpleVector_default = \<lparr>items = ArrayPtr_default, vsize = 0, capacity = 0\<rparr>"

text \<open>\<open>explicit SimpleVector(size_t size)\<close>\<close>

definition SimpleVector_size :: "'a \<Rightarrow> nat \<Rightarrow> env \<Rightarrow> ('a SimpleVector \<times> env, unit) outcome" where
  "SimpleVector_size d n E =
     (case ArrayPtr_size d n E of
        Done (ap, E1) \<Rightarrow>
          (let this = \<lparr>items = ap, vsize = n, capacity = n\<rparr> in
           case generate (Get (items this)) 0 (vsize this) d E1 of
             Done (p, E2) \<Rightarrow> Done (with_block this p, E2)
           | Raised e p \<Rightarrow> Raised e ()
           | Undefined \<Rightarrow> Undefined
           | Aborted \<Rightarrow> Aborted)
      | Raised e u \<Rightarrow> Raised e ()
      | Undefined \<Rightarrow> Undefined
      | Aborted \<Rightarrow> Aborted)"

text \<open>
  \<open>SimpleVector(std::initializer_list<Type> init)\<close>; the array behind \<open>init\<close> is a
  temporary whose address is never compared.  Its elements are \<open>const\<close>, so the
  \<open>std::move\<close> over them copies.
\<close>

definition SimpleVector_init :: "'a \<Rightarrow> 'a list \<Rightarrow> env \<Rightarrow> ('a SimpleVector \<times> env, unit) outcome" where
  "SimpleVector_init d init E =
     (case ArrayPtr_size d (length init) E of
        Done (ap, E1) \<Rightarrow>
          (let this = \<lparr>items = ap, vsize = length init, capacity = length init\<rparr> in
           case std_copy (Array 0 init) 0 (length init) (Get (items this)) 0 E1 of
             Done (p, E2) \<Rightarrow> Done (with_block this p, E2)
           | Raised e p \<Rightarrow> Raised e ()
           | Undefined \<Rightarrow> Undefined
           | Aborted \<Rightarrow> Aborted)
      | Raised e u \<Rightarrow> Raised e ()
      | Undefined \<Rightarrow> Undefined
      | Aborted \<Rightarrow> Aborted)"

text \<open>\<open>explicit SimpleVector(ReserveProxyObj capacity)\<close>\<close>

definition SimpleVector_reserve :: "'a \<Rightarrow> nat \<Rightarrow> env \<Rightarrow> ('a SimpleVector \<times> env, unit) outcome" where
  "SimpleVector_reserve d cap E =
     (case ArrayPtr_size d cap E of
        Done (ap, E1) \<Rightarrow> Done (\<lparr>items = ap, vsize = 0, capacity = cap\<rparr>, E1)
      | Raised e u \<Rightarrow> Raised e ()
      | Undefined \<Rightarrow> Undefined
      | Aborted \<Rightarrow> Aborted)"

text \<open>\<open>GetSize\<close>, \<open>GetCapacity\<close>, \<open>IsEmpty\<close>, \<open>Clear\<close>\<close>

definition GetSize :: "'a SimpleVector \<Rightarrow> nat" where
  "GetSize this = vsize this"

definition GetCapacity :: "'a SimpleVector \<Rightarrow> nat" where
  "GetCapacity this = capacity this"

definition IsEmpty :: "'a SimpleVector \<Rightarrow> bool" where
  "IsEmpty this = (vsize this = 0)"

definition Clear :: "'a SimpleVector \<Rightarrow> 'a SimpleVector" where
  "Clear this = this\<lparr>vsize := 0\<rparr>"

text \<open>\<open>void swap(SimpleVector& other) noexcept\<close>, \<open>other\<close> a distinct object.\<close>

definition SimpleVector_swap :: "'a SimpleVector \<Rightarrow> 'a SimpleVector \<Rightarrow> 'a SimpleVector \<times> 'a SimpleVector" where
  "SimpleVector_swap this other =
     (case ArrayPtr_swap (items this) (items other) of
        (i, j) \<Rightarrow>
          (this\<lparr>items := i, vsize := vsize other, capacity := capacity other\<rparr>,
           other\<lparr>items := j, vsize := vsize this, capacity := capacity this\<rparr>))"

text \<open>\<open>SimpleVector(const SimpleVector& other)\<close>\<close>

definition SimpleVector_copy :: "'a \<Rightarrow> 'a SimpleVector \<Rightarrow> env \<Rightarrow> ('a SimpleVector \<times> env, unit) outcome" where
  "SimpleVector_copy d other E =
     (case SimpleVector_size d (vsize other) E of
        Done (tmp, E1) \<Rightarrow>
          (case std_copy (Get (items other)) 0 (vsize other) (Get (items tmp)) 0 E1 of
             Done (p, E2) \<Rightarrow>
               (case SimpleVector_swap SimpleVector_default (with_block tmp p) of
                  (this', tmp') \<Rightarrow> Done (this', E2))
           | Raised e p \<Rightarrow> Raised e ()
           | Undefined \<Rightarrow> Undefined
           | Aborted \<Rightarrow> Aborted)
      | Raised e u \<Rightarrow> Raised e ()
      | Undefined \<Rightarrow> Undefined
      | Aborted \<Rightarrow> Aborted)"

text \<open>\<open>SimpleVector& operator=(const SimpleVector& rhs)\<close>\<close>

definition copy_assign :: "'a \<Rightarrow> 'a SimpleVector \<Rightarrow> 'a SimpleVector ref \<Rightarrow> env \<Rightarrow> ('a SimpleVector \<times> env, 'a SimpleVector) outcome" where
  "copy_assign d this rhs E =
     (if \<not> aliases rhs then
        (if IsEmpty (referent this rhs) then Done (Clear this, E)
         else (case SimpleVector_copy d (referent this rhs) E of
                 Done (rhs_copy, E') \<Rightarrow>
                   (case SimpleVector_swap this rhs_copy of (this', tmp') \<Rightarrow> Done (this', E'))
               | Raised e u \<Rightarrow> Raised e this
               | Undefined \<Rightarrow> Undefined
               | Aborted \<Rightarrow> Aborted))
      else Done (this, E))"

text \<open>\<open>SimpleVector(SimpleVector&& other) noexcept\<close>: the new object and \<open>other\<close> afterwards.\<close>

definition SimpleVector_move :: "'a SimpleVector \<Rightarrow> 'a SimpleVector \<times> 'a SimpleVector" where
  "SimpleVector_move other =
     (case ArrayPtr_move (items other) of
        (i, j) \<Rightarrow>
          (\<lparr>items = i, vsize = vsize other, capacity = capacity other\<rparr>,
           Clear (other\<lparr>items := j\<rparr>)))"

text \<open>\<open>void Resize(size_t new_size)\<close>; the handler \<open>catch (...) { throw; }\<close> passes every exception on.\<close>

definition Resize :: "'a \<Rightarrow> ('a \<Rightarrow> 'a) \<Rightarrow> nat \<Rightarrow> 'a SimpleVector \<Rightarrow> env \<Rightarrow> ('a SimpleVector \<times> env, 'a SimpleVector) outcome" where
  "Resize d mv new_size this E =
     (if vsize this \<le> new_size then
        (let old_size = vsize this in
         case SimpleVector_size d new_size E of
           Done (tmp, E1) \<Rightarrow>
             (case (if \<not> IsEmpty this
                    then std_move mv (Get (items this)) 0 (vsize this) (Get (items tmp)) 0 E1
                    else Done (Get (items this), Get (items tmp), E1)) of
                Done (s, p, E2) \<Rightarrow>
                  (let this1 = (with_block this s)\<lparr>vsize := new_size\<rparr>;
                       this2 = this1\<lparr>capacity := vsize this1 * 2\<rparr> in
                   case SimpleVector_swap this2 (with_block tmp p) of
                     (this3, tmp') \<Rightarrow>
                       (case generate (Get (items this3)) old_size (vsize this3) d E2 of
                          Done (q, E3) \<Rightarrow> Done (with_block this3 q, E3)
                        | Raised e q \<Rightarrow> Raised e (with_block this3 q)
                        | Undefined \<Rightarrow> Undefined
                        | Aborted \<Rightarrow> Aborted))
              | Raised e (s, p) \<Rightarrow> Raised e (with_block this s)
              | Undefined \<Rightarrow> Undefined
              | Aborted \<Rightarrow> Aborted)
         | Raised e u \<Rightarrow> Raised e this
         | Undefined \<Rightarrow> Undefined
         | Aborted \<Rightarrow> Aborted)
      else Done (this\<lparr>vsize := new_size\<rparr>, E))"

text \<open>
  \<open>SimpleVector& operator=(SimpleVector&& rhs) noexcept\<close>, the overload chosen for
  \<open>b = std::move(a)\<close>.  (The overload taking \<open>const SimpleVector&&\<close> assigns to and clears
  a constant object; it cannot be instantiated.)  An exception inside a \<open>noexcept\<close>
  function stops the process.  The result carries \<open>*this\<close> and \<open>rhs\<close> afterwards;
  \<open>moved_out rhs s\<close> is \<open>rhs\<close> with its block in the state \<open>s\<close> the moves left it in.
\<close>

fun moved_out :: "'a SimpleVector ref \<Rightarrow> 'a raw \<Rightarrow> 'a SimpleVector ref" where
  "moved_out Self s = Self"
| "moved_out (Other other) s = Other (with_block other s)"

definition move_assign :: "'a \<Rightarrow> ('a \<Rightarrow> 'a) \<Rightarrow> 'a SimpleVector \<Rightarrow> 'a SimpleVector ref \<Rightarrow> env \<Rightarrow> ('a SimpleVector \<times> 'a SimpleVector ref \<times> env, unit) outcome" where
  "move_assign d mv this rhs E =
     (if address (Get (items this)) \<noteq> address (Get (items (referent this rhs))) then
        (case Resize d mv (vsize (referent this rhs)) this E of
           Done (this1, E1) \<Rightarrow>
             (case std_move mv (Get (items (referent this1 rhs))) 0 (vsize (referent this1 rhs))
                     (Get (items this1)) 0 E1 of
                Done (s, p, E2) \<Rightarrow> Done (with_block this1 p, moved_out rhs s, E2)
              | Raised e sp \<Rightarrow> Aborted
              | Undefined \<Rightarrow> Undefined
              | Aborted \<Rightarrow> Aborted)
         | Raised e s \<Rightarrow> Aborted
         | Undefined \<Rightarrow> Undefined
         | Aborted \<Rightarrow> Aborted)
      else Done (this, rhs, E))"

text \<open>\<open>ItemsPtr ReallocateCopy(size_t new_capacity) const\<close>\<close>

definition ReallocateCopy :: "'a \<Rightarrow> nat \<Rightarrow> 'a SimpleVector \<Rightarrow> env \<Rightarrow> ('a ArrayPtr \<times> env, unit) outcome" where
  "ReallocateCopy d new_capacity this E =
     (case ArrayPtr_size d new_capacity E of
        Done (new_items, E1) \<Rightarrow>
          (let copy_size = min new_capacity (vsize this) in
           case std_copy (Get (items this)) 0 copy_size (Get new_items) 0 E1 of
             Done (p, E2) \<Rightarrow>
               (case Release (new_items\<lparr>raw_ptr := p\<rparr>) of
                  (q, new_items') \<Rightarrow> Done (ArrayPtr_raw q, E2))
           | Raised e p \<Rightarrow> Raised e ()
           | Undefined \<Rightarrow> Undefined
           | Aborted \<Rightarrow> Aborted)
      | Raised e u \<Rightarrow> Raised e ()
      | Undefined \<Rightarrow> Undefined
      | Aborted \<Rightarrow> Aborted)"

text \<open>
  \<open>void PushBack(const Type& item)\<close>.  The argument is read while every cell of the
  vector's block still holds its value.
\<close>

definition PushBack_copy :: "'a \<Rightarrow> 'a arg \<Rightarrow> 'a SimpleVector \<Rightarrow> env \<Rightarrow> ('a SimpleVector \<times> env, 'a SimpleVector) outcome" where
  "PushBack_copy d item this E =
     (let new_size = vsize this + 1 in
      if new_size > capacity this then
        (let new_capacity = max (capacity this * 2) new_size in
         case ReallocateCopy d new_capacity this E of
           Done (new_items, E1) \<Rightarrow>
             (case arg_load (Get (items this)) item of
                None \<Rightarrow> Undefined
              | Some x \<Rightarrow>
                  (case assign_at (Get new_items) (vsize this) x E1 of
                     Done (p, E2) \<Rightarrow>
                       (let this1 = this\<lparr>capacity := new_capacity\<rparr> in
                        case ArrayPtr_swap (items this1) (new_items\<lparr>raw_ptr := p\<rparr>) of
                          (i, j) \<Rightarrow> Done (this1\<lparr>items := i, vsize := new_size\<rparr>, E2))
                   | Raised e p \<Rightarrow> Raised e this
                   | Undefined \<Rightarrow> Undefined
                   | Aborted \<Rightarrow> Aborted))
         | Raised e u \<Rightarrow> Raised e this
         | Undefined \<Rightarrow> Undefined
         | Aborted \<Rightarrow> Aborted)
      else
        (case arg_load (Get (items this)) item of
           None \<Rightarrow> Undefined
         | Some x \<Rightarrow>
             (case assign_at (Get (items this)) (vsize this) x E of
                Done (p, E1) \<Rightarrow> Done ((with_block this p)\<lparr>vsize := new_size\<rparr>, E1)
              | Raised e p \<Rightarrow> Raised e (with_block this p)
              | Undefined \<Rightarrow> Undefined
              | Aborted \<Rightarrow> Aborted)))"

text \<open>
  \<open>void ResizeCapacity(size_t new_capacity)\<close>; \<open>&tmp_data[0]\<close> is \<open>tmp_data.Get()\<close>.
  The old block, with its cells moved-from, goes to \<open>tmp_data\<close> and is freed on return.
\<close>

definition ResizeCapacity :: "'a \<Rightarrow> ('a \<Rightarrow> 'a) \<Rightarrow> nat \<Rightarrow> 'a SimpleVector \<Rightarrow> env \<Rightarrow> ('a SimpleVector \<times> env, 'a SimpleVector) outcome" where
  "ResizeCapacity d mv new_capacity this E =
     (case ArrayPtr_size d new_capacity E of
        Done (tmp_data, E1) \<Rightarrow>
          (case std_move mv (Get (items this)) 0 (vsize this) (Get tmp_data) 0 E1 of
             Done (s, p, E2) \<Rightarrow>
               (case ArrayPtr_move_assign (items (with_block this s)) (Other (tmp_data\<lparr>raw_ptr := p\<rparr>)) of
                  (i, j) \<Rightarrow> Done (this\<lparr>items := i, capacity := new_capacity\<rparr>, E2))
           | Raised e (s, p) \<Rightarrow> Raised e (with_block this s)
           | Undefined \<Rightarrow> Undefined
           | Aborted \<Rightarrow> Aborted)
      | Raised e u \<Rightarrow> Raised e this
      | Undefined \<Rightarrow> Undefined
      | Aborted \<Rightarrow> Aborted)"

text \<open>
  \<open>void PushBack(Type&& value)\<close>.  In \<open>items_[size_++] = std::move(value)\<close> the
  increment is done when \<open>operator[]\<close> is called, before the assignment runs.  When
  \<open>ResizeCapacity\<close> has run, the block the vector owned at the start is freed, and an
  argument that names one of its cells is read after its lifetime.
\<close>

definition PushBack_move :: "'a \<Rightarrow> ('a \<Rightarrow> 'a) \<Rightarrow> 'a arg \<Rightarrow> 'a SimpleVector \<Rightarrow> env \<Rightarrow> ('a SimpleVector \<times> env, 'a SimpleVector) outcome" where
  "PushBack_move d mv val this E =
     (case (if capacity this = vsize this
            then ResizeCapacity d mv (if vsize this = 0 then 1 else vsize this * 2) this E
            else Done (this, E)) of
        Done (this1, E1) \<Rightarrow>
          (let index = vsize this1;
               this2 = this1\<lparr>vsize := vsize this1 + 1\<rparr> in
           if capacity this = vsize this \<and> (case val of Element k \<Rightarrow> True | Value x \<Rightarrow> False)
           then Undefined
           else
             (case move_arg_within mv (Get (items this2)) val index E1 of
                Done (p, E2) \<Rightarrow> Done (with_block this2 p, E2)
              | Raised e p \<Rightarrow> Raised e (with_block this2 p)
              | Undefined \<Rightarrow> Undefined
              | Aborted \<Rightarrow> Aborted))
      | Raised e s \<Rightarrow> Raised e s
      | Undefined \<Rightarrow> Undefined
      | Aborted \<Rightarrow> Aborted)"

text \<open>
  \<open>Iterator Insert(ConstIterator pos, const Type& value)\<close>; \<open>pos\<close> is the offset
  \<open>pos - cbegin()\<close>, the result carries the offset of the returned iterator.  In the
  first branch \<open>value\<close> is read after \<open>std::copy_backward\<close> has shifted the tail, in
  the second while the old block is as it was.
\<close>

definition Insert_copy :: "'a \<Rightarrow> nat \<Rightarrow> 'a arg \<Rightarrow> 'a SimpleVector \<Rightarrow> env \<Rightarrow> ('a SimpleVector \<times> nat \<times> env, 'a SimpleVector) outcome" where
  "Insert_copy d pos val this E =
     (if \<not> pos \<le> vsize this then Aborted
      else
        (let new_size = vsize this + 1;
             new_item_offset = pos in
         if new_size \<le> capacity this then
           (case std_copy_backward (Get (items this)) pos (vsize this) (vsize this + 1) E of
              Done (p, E1) \<Rightarrow>
                (case arg_load p val of
                   None \<Rightarrow> Undefined
                 | Some x \<Rightarrow>
                     (case assign_at p new_item_offset x E1 of
                        Done (q, E2) \<Rightarrow>
                          Done ((with_block this q)\<lparr>vsize := new_size\<rparr>, new_item_offset, E2)
                      | Raised e q \<Rightarrow> Raised e (with_block this q)
                      | Undefined \<Rightarrow> Undefined
                      | Aborted \<Rightarrow> Aborted))
            | Raised e p \<Rightarrow> Raised e (with_block this p)
            | Undefined \<Rightarrow> Undefined
            | Aborted \<Rightarrow> Aborted)
         else
           (let new_capacity = max (capacity this * 2) new_size in
            case ArrayPtr_size d new_capacity E of
              Done (new_items, E1) \<Rightarrow>
                (case std_copy (Get (items this)) 0 pos (Get new_items) 0 E1 of
                   Done (p1, E2) \<Rightarrow>
                     (case arg_load (Get (items this)) val of
                        None \<Rightarrow> Undefined
                      | Some x \<Rightarrow>
                          (case assign_at p1 new_item_offset x E2 of
                             Done (p2, E3) \<Rightarrow>
                               (case std_copy (Get (items this)) pos (vsize this) p2 (new_item_offset + 1) E3 of
                                  Done (p3, E4) \<Rightarrow>
                                    (case ArrayPtr_swap (items this) (new_items\<lparr>raw_ptr := p3\<rparr>) of
                                       (i, j) \<Rightarrow>
                                         Done (this\<lparr>items := i, capacity := new_capacity, vsize := new_size\<rparr>,
                                               new_item_offset, E4))
                                | Raised e p3 \<Rightarrow> Raised e this
                                | Undefined \<Rightarrow> Undefined
                                | Aborted \<Rightarrow> Aborted)
                           | Raised e p2 \<Rightarrow> Raised e this
                           | Undefined \<Rightarrow> Undefined
                           | Aborted \<Rightarrow> Aborted))
                 | Raised e p1 \<Rightarrow> Raised e this
                 | Undefined \<Rightarrow> Undefined
                 | Aborted \<Rightarrow> Aborted)
            | Raised e u \<Rightarrow> Raised e this
            | Undefined \<Rightarrow> Undefined
            | Aborted \<Rightarrow> Aborted)))"


text \<open>\<open>void Reserve(size_t new_capacity)\<close>\<close>

definition Reserve :: "'a \<Rightarrow> ('a \<Rightarrow> 'a) \<Rightarrow> nat \<Rightarrow> 'a SimpleVector \<Rightarrow> env \<Rightarrow> ('a SimpleVector \<times> env, 'a SimpleVector) outcome" where
  "Reserve d mv new_capacity this E =
     (if new_capacity > capacity this then
        (case SimpleVector_size d new_capacity E of
           Done (new_vector, E1) \<Rightarrow>
             (case std_move mv (Get (items this)) 0 (vsize this) (Get (items new_vector)) 0 E1 of
                Done (s, p, E2) \<Rightarrow>
                  (case ArrayPtr_swap (items (with_block this s)) ((items new_vector)\<lparr>raw_ptr := p\<rparr>) of
                     (i, j) \<Rightarrow> Done (this\<lparr>items := i, capacity := new_capacity\<rparr>, E2))
              | Raised e (s, p) \<Rightarrow> Raised e (with_block this s)
              | Undefined \<Rightarrow> Undefined
              | Aborted \<Rightarrow> Aborted)
         | Raised e u \<Rightarrow> Raised e this
         | Undefined \<Rightarrow> Undefined
         | Aborted \<Rightarrow> Aborted)
      else Done (this, E))"

text \<open>The loops are unfolded by hand, one iteration at a time.\<close>

declare generate.simps [simp del]
declare std_copy.simps [simp del]
declare std_copy_backward.simps [simp del]
declare std_move.simps [simp del]

section \<open>Observations\<close>

text \<open>The elements at the logical indices \<open>[0, size)\<close>.\<close>

definition elements :: "'a SimpleVector \<Rightarrow> 'a list" where
  "elements this = take (vsize this) (cells (Get (items this)))"

text \<open>
  The invariant of a vector: \<open>size \<le> capacity\<close>, and the block has \<open>capacity\<close>
  cells (none for \<open>nullptr\<close>).
\<close>

definition vector_inv :: "'a SimpleVector \<Rightarrow> bool" where
  "vector_inv this = (vsize this \<le> capacity this \<and> length (cells (Get (items this))) = capacity this)"


text \<open>The invariant the specification states for the buffer handle.\<close>

definition buffer_inv :: "'a ArrayPtr \<Rightarrow> bool" where
  "buffer_inv this = ((raw_ptr this = Null) = (ap_capacity this = 0))"

section \<open>Example states\<close>

text \<open>An environment in which nothing throws.\<close>

definition env0 :: env where
  "env0 = \<lparr>next_addr = 1, throw_after = None\<rparr>"

text \<open>The vector \<open>{1, 2, 3}\<close>, and the same vector after \<open>Reserve(5)\<close>.\<close>

definition example_123 :: "nat SimpleVector" where
  "example_123 = \<lparr>items = \<lparr>raw_ptr = Array 0 [1, 2, 3], ap_capacity = 3\<rparr>, vsize = 3, capacity = 3\<rparr>"

definition example_reserved :: "nat SimpleVector" where
  "example_reserved =
     \<lparr>items = \<lparr>raw_ptr = Array 1 [1, 2, 3, 0, 0], ap_capacity = 5\<rparr>, vsize = 3, capacity = 5\<rparr>"

section \<open>The environment, single cells and the loops\<close>

lemma attempt_no_throw: "throw_after E = None \<Longrightarrow> attempt E = Some E"
  by (simp add: attempt_def)

lemma attempts_no_throw: "throw_after E = None \<Longrightarrow> attempts n E = Some E"
  by (induction n) (simp_all add: attempt_no_throw)

lemma store_Some:
  "store p i x = Some p' \<Longrightarrow>
     i < length (cells p) \<and> address p' = address p \<and> cells p' = (cells p)[i := x]"
  by (cases p) (auto split: if_splits)

lemma store_in_range: "i < length (cells p) \<Longrightarrow> \<exists>p'. store p i x = Some p'"
  by (cases p) auto

lemma load_Some: "load p i = Some x \<Longrightarrow> i < length (cells p) \<and> x = cells p ! i"
  by (cases p) (auto split: if_splits)

lemma load_in_range: "i < length (cells p) \<Longrightarrow> load p i = Some (cells p ! i)"
  by (cases p) auto

lemma assign_at_Done:
  "assign_at p i x E = Done (p', E') \<Longrightarrow>
     i < length (cells p) \<and> address p' = address p \<and> cells p' = (cells p)[i := x]"
  by (auto simp: assign_at_def split: option.splits dest: store_Some)

lemma assign_at_Raised: "assign_at p i x E = Raised e p' \<Longrightarrow> p' = p"
  by (auto simp: assign_at_def split: option.splits)

lemma assign_at_no_throw:
  "throw_after E = None \<Longrightarrow> i < length (cells p) \<Longrightarrow> \<exists>p'. assign_at p i x E = Done (p', E)"
  using store_in_range [of i p x] by (auto simp: assign_at_def attempt_no_throw)

lemma generate_Done:
  "generate p f l d E = Done (p', E') \<Longrightarrow>
     f \<le> l \<and> address p' = address p \<and> length (cells p') = length (cells p) \<and>
     (f < l \<longrightarrow> l \<le> length (cells p)) \<and>
     (\<forall>i < length (cells p). cells p' ! i = (if f \<le> i \<and> i < l then d else cells p ! i))"
proof (induction p f l d E rule: generate.induct)
  case (1 p f l d E)
  show ?case
  proof (cases "f = l")
    case True
    with "1.prems" show ?thesis by (auto simp: generate.simps std_copy.simps std_copy_backward.simps)
  next
    case False
    with "1.prems" obtain E1 p1 where
      lt: "f < l" and a: "attempt E = Some E1" and s: "store p f d = Some p1"
      and g: "generate p1 (Suc f) l d E1 = Done (p', E')"
      by (subst (asm) generate.simps) (auto split: if_splits option.splits)
    from "1.IH" [OF False _ a s g] lt
    have ih: "Suc f \<le> l" "address p' = address p1" "length (cells p') = length (cells p1)"
      "Suc f < l \<longrightarrow> l \<le> length (cells p1)"
      "\<forall>i < length (cells p1). cells p' ! i = (if Suc f \<le> i \<and> i < l then d else cells p1 ! i)"
      by auto
    from store_Some [OF s]
    have st: "f < length (cells p)" "address p1 = address p" "cells p1 = (cells p)[f := d]"
      by auto
    show ?thesis using ih st lt by (auto simp: nth_list_update)
  qed
qed

lemma generate_no_throw:
  "throw_after E = None \<Longrightarrow> f \<le> l \<Longrightarrow> (f < l \<longrightarrow> l \<le> length (cells p)) \<Longrightarrow>
     \<exists>p'. generate p f l d E = Done (p', E)"
proof (induction p f l d E rule: generate.induct)
  case (1 p f l d E)
  show ?case
  proof (cases "f = l")
    case True
    then show ?thesis by (simp add: generate.simps std_copy.simps std_copy_backward.simps)
  next
    case False
    with "1.prems" have lt: "f < l" "f < length (cells p)" by auto
    from store_in_range [OF lt(2)] obtain p1 where s: "store p f d = Some p1" by blast
    have a: "attempt E = Some E" using "1.prems" by (simp add: attempt_no_throw)
    from store_Some [OF s] have len: "length (cells p1) = length (cells p)" by simp
    from "1.IH" [OF False _ a s] lt "1.prems" len
    obtain p' where "generate p1 (Suc f) l d E = Done (p', E)" by auto
    then show ?thesis using lt a s by (subst generate.simps) simp
  qed
qed


lemma std_copy_Done:
  "std_copy s f l t o' E = Done (t', E') \<Longrightarrow>
     f \<le> l \<and> address t' = address t \<and> length (cells t') = length (cells t) \<and>
     (f < l \<longrightarrow> l \<le> length (cells s) \<and> o' + (l - f) \<le> length (cells t)) \<and>
     (\<forall>i < length (cells t). cells t' ! i =
         (if o' \<le> i \<and> i < o' + (l - f) then cells s ! (f + (i - o')) else cells t ! i))"
proof (induction s f l t o' E rule: std_copy.induct)
  case (1 s f l t o' E)
  show ?case
  proof (cases "f = l")
    case True
    with "1.prems" show ?thesis by (auto simp: generate.simps std_copy.simps std_copy_backward.simps)
  next
    case False
    with "1.prems" obtain x t1 E1 where
      lt: "f < l" and ld: "load s f = Some x" and a: "assign_at t o' x E = Done (t1, E1)"
      and r: "std_copy s (Suc f) l t1 (Suc o') E1 = Done (t', E')"
      by (subst (asm) std_copy.simps) (auto split: if_splits option.splits outcome.splits)
    from "1.IH" [OF False _ ld a _ r] lt
    have ih: "address t' = address t1" "length (cells t') = length (cells t1)"
      "Suc f < l \<longrightarrow> l \<le> length (cells s) \<and> Suc o' + (l - Suc f) \<le> length (cells t1)"
      "\<forall>i < length (cells t1). cells t' ! i =
         (if Suc o' \<le> i \<and> i < Suc o' + (l - Suc f) then cells s ! (Suc f + (i - Suc o')) else cells t1 ! i)"
      by auto
    from load_Some [OF ld] have lds: "f < length (cells s)" "x = cells s ! f" by auto
    from assign_at_Done [OF a]
    have st: "o' < length (cells t)" "address t1 = address t" "cells t1 = (cells t)[o' := x]"
      by auto
    have nth: "cells t' ! i =
         (if o' \<le> i \<and> i < o' + (l - f) then cells s ! (f + (i - o')) else cells t ! i)"
      if "i < length (cells t)" for i
    proof (cases "i = o'")
      case True
      have "o' < o' + (l - f)" using lt by simp
      then show ?thesis using True ih(4) st lds lt that by (simp add: nth_list_update)
    next
      case False
      have "Suc f + (i - Suc o') = f + (i - o')" if "Suc o' \<le> i"
        using that by simp
      then show ?thesis using False ih(4) st lds lt that by (auto simp: nth_list_update)
    qed
    show ?thesis using ih(1,2,3) st lds lt nth by auto
  qed
qed

lemma std_copy_no_throw:
  "throw_after E = None \<Longrightarrow> f \<le> l \<Longrightarrow>
     (f < l \<longrightarrow> l \<le> length (cells s) \<and> o' + (l - f) \<le> length (cells t)) \<Longrightarrow>
     \<exists>t'. std_copy s f l t o' E = Done (t', E)"
proof (induction s f l t o' E rule: std_copy.induct)
  case (1 s f l t o' E)
  show ?case
  proof (cases "f = l")
    case True
    then show ?thesis by (simp add: generate.simps std_copy.simps std_copy_backward.simps)
  next
    case False
    with "1.prems" have lt: "f < l" "f < length (cells s)" "o' < length (cells t)" by auto
    have ld: "load s f = Some (cells s ! f)" using lt by (simp add: load_in_range)
    from assign_at_no_throw [OF "1.prems"(1) lt(3)]
    obtain t1 where a: "assign_at t o' (cells s ! f) E = Done (t1, E)" by blast
    from assign_at_Done [OF a] have len: "length (cells t1) = length (cells t)" by simp
    have "Suc f < l \<longrightarrow> l \<le> length (cells s) \<and> Suc o' + (l - Suc f) \<le> length (cells t1)"
      using lt "1.prems" len by auto
    with "1.IH" [OF False _ ld a _ "1.prems"(1)] lt
    obtain t' where "std_copy s (Suc f) l t1 (Suc o') E = Done (t', E)" by auto
    then show ?thesis using lt ld a by (subst std_copy.simps) simp
  qed
qed

lemma std_copy_backward_Done:
  "std_copy_backward p f l dl E = Done (p', E') \<Longrightarrow> dl = Suc l \<Longrightarrow>
     f \<le> l \<and> address p' = address p \<and> length (cells p') = length (cells p) \<and>
     (f < l \<longrightarrow> l < length (cells p)) \<and>
     (\<forall>i < length (cells p). cells p' ! i =
         (if f < i \<and> i \<le> l then cells p ! (i - 1) else cells p ! i))"
proof (induction p f l dl E rule: std_copy_backward.induct)
  case (1 p f l dl E)
  show ?case
  proof (cases "f = l")
    case True
    with "1.prems" show ?thesis by (auto simp: generate.simps std_copy.simps std_copy_backward.simps)
  next
    case False
    with "1.prems" obtain x p1 E1 where
      lt: "f < l" and ld: "load p (l - 1) = Some x" and a: "assign_at p (dl - 1) x E = Done (p1, E1)"
      and r: "std_copy_backward p1 f (l - 1) (dl - 1) E1 = Done (p', E')"
      by (subst (asm) std_copy_backward.simps) (auto split: if_splits option.splits outcome.splits)
    have dl: "dl - 1 = Suc (l - 1)" using "1.prems"(2) lt by simp
    have nz: "\<not> (l < f \<or> dl = 0)" using lt "1.prems"(2) by simp
    from "1.IH" [OF False nz ld a _ r dl]
    have ih: "address p' = address p1" "length (cells p') = length (cells p1)"
      "\<forall>i < length (cells p1). cells p' ! i =
         (if f < i \<and> i \<le> l - 1 then cells p1 ! (i - 1) else cells p1 ! i)"
      by auto
    from load_Some [OF ld] have lds: "l - 1 < length (cells p)" "x = cells p ! (l - 1)" by auto
    from assign_at_Done [OF a] dl lt
    have st: "l < length (cells p)" "address p1 = address p" "cells p1 = (cells p)[l := x]"
      by auto
    show ?thesis using ih st lds lt by (auto simp: nth_list_update)
  qed
qed

lemma std_copy_backward_no_throw:
  "throw_after E = None \<Longrightarrow> f \<le> l \<Longrightarrow> dl = Suc l \<Longrightarrow> (f < l \<longrightarrow> l < length (cells p)) \<Longrightarrow>
     \<exists>p'. std_copy_backward p f l dl E = Done (p', E)"
proof (induction p f l dl E rule: std_copy_backward.induct)
  case (1 p f l dl E)
  show ?case
  proof (cases "f = l")
    case True
    then show ?thesis by (simp add: generate.simps std_copy.simps std_copy_backward.simps)
  next
    case False
    with "1.prems" have lt: "f < l" "l < length (cells p)" "l - 1 < length (cells p)" by auto
    have nz: "\<not> (l < f \<or> dl = 0)" using lt "1.prems" by simp
    have ld: "load p (l - 1) = Some (cells p ! (l - 1))" using lt by (simp add: load_in_range)
    have "dl - 1 < length (cells p)" using "1.prems" lt by simp
    from assign_at_no_throw [OF "1.prems"(1) this]
    obtain p1 where a: "assign_at p (dl - 1) (cells p ! (l - 1)) E = Done (p1, E)" by blast
    from assign_at_Done [OF a] have len: "length (cells p1) = length (cells p)" by simp
    have "f \<le> l - 1" "dl - 1 = Suc (l - 1)" "f < l - 1 \<longrightarrow> l - 1 < length (cells p1)"
      using lt "1.prems" len by auto
    with "1.IH" [OF False nz ld a _ "1.prems"(1)]
    obtain p' where "std_copy_backward p1 f (l - 1) (dl - 1) E = Done (p', E)" by blast
    then show ?thesis using lt ld a nz by (subst std_copy_backward.simps) simp
  qed
qed

lemma std_move_Done:
  "std_move mv s f l t o' E = Done (s', t', E') \<Longrightarrow>
     f \<le> l \<and> address t' = address t \<and> length (cells t') = length (cells t) \<and>
     address s' = address s \<and> length (cells s') = length (cells s) \<and>
     (f < l \<longrightarrow> l \<le> length (cells s) \<and> o' + (l - f) \<le> length (cells t)) \<and>
     (\<forall>i < length (cells t). cells t' ! i =
         (if o' \<le> i \<and> i < o' + (l - f) then cells s ! (f + (i - o')) else cells t ! i)) \<and>
     (\<forall>i < length (cells s). cells s' ! i =
         (if f \<le> i \<and> i < l then mv (cells s ! i) else cells s ! i))"
proof (induction mv s f l t o' E rule: std_move.induct)
  case (1 mv s f l t o' E)
  show ?case
  proof (cases "f = l")
    case True
    with "1.prems" show ?thesis by (auto simp: std_move.simps)
  next
    case False
    with "1.prems" obtain x t1 E1 s1 where
      lt: "f < l" and ld: "load s f = Some x" and a: "assign_at t o' x E = Done (t1, E1)"
      and st: "store s f (mv x) = Some s1"
      and r: "std_move mv s1 (Suc f) l t1 (Suc o') E1 = Done (s', t', E')"
      by (subst (asm) std_move.simps) (auto split: if_splits option.splits outcome.splits)
    from "1.IH" [OF False _ ld a _ st r] lt
    have ih: "address t' = address t1" "length (cells t') = length (cells t1)"
      "address s' = address s1" "length (cells s') = length (cells s1)"
      "Suc f < l \<longrightarrow> l \<le> length (cells s1) \<and> Suc o' + (l - Suc f) \<le> length (cells t1)"
      "\<forall>i < length (cells t1). cells t' ! i =
         (if Suc o' \<le> i \<and> i < Suc o' + (l - Suc f) then cells s1 ! (Suc f + (i - Suc o')) else cells t1 ! i)"
      "\<forall>i < length (cells s1). cells s' ! i =
         (if Suc f \<le> i \<and> i < l then mv (cells s1 ! i) else cells s1 ! i)"
      by auto
    from load_Some [OF ld] have lds: "f < length (cells s)" "x = cells s ! f" by auto
    from assign_at_Done [OF a]
    have at: "o' < length (cells t)" "address t1 = address t" "cells t1 = (cells t)[o' := x]"
      by auto
    from store_Some [OF st]
    have ss: "address s1 = address s" "cells s1 = (cells s)[f := mv x]" by auto
    have nth: "cells t' ! i =
         (if o' \<le> i \<and> i < o' + (l - f) then cells s ! (f + (i - o')) else cells t ! i)"
      if "i < length (cells t)" for i
    proof (cases "i = o'")
      case True
      have "o' < o' + (l - f)" using lt by simp
      then show ?thesis using True ih(6) at lds lt that by (simp add: nth_list_update)
    next
      case False
      have "Suc f + (i - Suc o') = f + (i - o')" if "Suc o' \<le> i"
        using that by simp
      moreover have "cells s1 ! (f + (i - o')) = cells s ! (f + (i - o'))" if "Suc o' \<le> i"
        using that ss by simp
      ultimately show ?thesis using False ih(6) at lds lt that by (auto simp: nth_list_update)
    qed
    have nths: "cells s' ! i = (if f \<le> i \<and> i < l then mv (cells s ! i) else cells s ! i)"
      if "i < length (cells s)" for i
      using ih(7) ss lds lt that by (auto simp: nth_list_update)
    show ?thesis using ih(1-5) at ss lds lt nth nths by auto
  qed
qed

lemma std_move_no_throw:
  "throw_after E = None \<Longrightarrow> f \<le> l \<Longrightarrow>
     (f < l \<longrightarrow> l \<le> length (cells s) \<and> o' + (l - f) \<le> length (cells t)) \<Longrightarrow>
     \<exists>s' t'. std_move mv s f l t o' E = Done (s', t', E)"
proof (induction mv s f l t o' E rule: std_move.induct)
  case (1 mv s f l t o' E)
  show ?case
  proof (cases "f = l")
    case True
    then show ?thesis by (simp add: std_move.simps)
  next
    case False
    with "1.prems" have lt: "f < l" "f < length (cells s)" "o' < length (cells t)" by auto
    have ld: "load s f = Some (cells s ! f)" using lt by (simp add: load_in_range)
    from assign_at_no_throw [OF "1.prems"(1) lt(3)]
    obtain t1 where a: "assign_at t o' (cells s ! f) E = Done (t1, E)" by blast
    from assign_at_Done [OF a] have len: "length (cells t1) = length (cells t)" by simp
    from store_in_range [OF lt(2)] obtain s1 where st: "store s f (mv (cells s ! f)) = Some s1"
      by blast
    from store_Some [OF st] have lens: "length (cells s1) = length (cells s)" by simp
    have "Suc f < l \<longrightarrow> l \<le> length (cells s1) \<and> Suc o' + (l - Suc f) \<le> length (cells t1)"
      using lt "1.prems" len lens by auto
    with "1.IH" [OF False _ ld a _ st "1.prems"(1)] lt
    obtain s' t' where "std_move mv s1 (Suc f) l t1 (Suc o') E = Done (s', t', E)" by auto
    then show ?thesis using lt ld a st by (subst std_move.simps) simp
  qed
qed



section \<open>Allocation, construction and Resize\<close>

lemma attempt_throw_after:
  "attempt E = Some E' \<Longrightarrow> throw_after E = None \<Longrightarrow> E' = E"
  by (simp add: attempt_no_throw)

lemma ArrayPtr_swap_eq: "ArrayPtr_swap a b = (b, a)"
  by (cases a, cases b) (simp add: ArrayPtr_swap_def)

lemma ArrayPtr_move_assign_eq:
  "ArrayPtr_move_assign a (Other b) = (b, Other a)" "ArrayPtr_move_assign a Self = (a, Self)"
  by (simp_all add: ArrayPtr_move_assign_def ArrayPtr_swap_eq)

lemma SimpleVector_swap_eq: "SimpleVector_swap a b = (b, a)"
  by (cases a, cases b) (simp add: SimpleVector_swap_def ArrayPtr_swap_eq)

lemma with_block_simps:
  "vsize (with_block v p) = vsize v" "capacity (with_block v p) = capacity v"
  "Get (items (with_block v p)) = p" "with_block (with_block v p) q = with_block v q"
  by (simp_all add: with_block_def Get_def)

lemma ArrayPtr_size_Done:
  "ArrayPtr_size d n E = Done (ap, E') \<Longrightarrow>
     cells (raw_ptr ap) = replicate n d \<and> ap_capacity ap = n"
  by (auto simp: ArrayPtr_size_def ArrayPtr_default_def new_array_def
           split: if_splits option.splits)

lemma ArrayPtr_size_no_throw:
  "throw_after E = None \<Longrightarrow>
     \<exists>ap E'. ArrayPtr_size d n E = Done (ap, E') \<and> throw_after E' = None"
  by (simp add: ArrayPtr_size_def new_array_def attempt_no_throw attempts_no_throw)

lemma SimpleVector_size_Done:
  assumes "SimpleVector_size d n E = Done (v, E')"
  shows "vsize v = n \<and> capacity v = n \<and> cells (Get (items v)) = replicate n d"
proof -
  from assms obtain ap E1 p where
    a: "ArrayPtr_size d n E = Done (ap, E1)" and
    g: "generate (raw_ptr ap) 0 n d E1 = Done (p, E')" and
    v: "v = with_block \<lparr>items = ap, vsize = n, capacity = n\<rparr> p"
    by (auto simp: SimpleVector_size_def Get_def split: outcome.splits)
  from ArrayPtr_size_Done [OF a] have c: "cells (raw_ptr ap) = replicate n d" by simp
  from generate_Done [OF g] c
  have "length (cells p) = n" "\<forall>i < n. cells p ! i = d" by auto
  then have "cells p = replicate n d" by (simp add: list_eq_iff_nth_eq)
  with v show ?thesis by (simp add: with_block_def Get_def)
qed

lemma SimpleVector_size_no_throw:
  assumes "throw_after E = None"
  shows "\<exists>v E'. SimpleVector_size d n E = Done (v, E') \<and> throw_after E' = None"
proof -
  from ArrayPtr_size_no_throw [OF assms, of d n] obtain ap E1 where
    a: "ArrayPtr_size d n E = Done (ap, E1)" and t: "throw_after E1 = None" by blast
  from ArrayPtr_size_Done [OF a] have "length (cells (raw_ptr ap)) = n" by simp
  with generate_no_throw [OF t, of 0 n "raw_ptr ap" d]
  obtain p where "generate (raw_ptr ap) 0 n d E1 = Done (p, E1)" by auto
  with a t show ?thesis by (simp add: SimpleVector_size_def Get_def)
qed

lemma Resize_shrink: "n < vsize v \<Longrightarrow> Resize d mv n v E = Done (v\<lparr>vsize := n\<rparr>, E)"
  by (simp add: Resize_def)

lemma Resize_grow_Done:
  assumes r: "Resize d mv n v E = Done (v', E')"
    and le: "vsize v \<le> n"
  shows "vsize v' = n \<and> capacity v' = n \<and> length (cells (Get (items v'))) = n \<and>
         vsize v \<le> length (cells (Get (items v))) \<and>
         elements v' = elements v @ replicate (n - vsize v) d"
proof -
  from r le obtain tmp E1 where s: "SimpleVector_size d n E = Done (tmp, E1)"
    by (auto simp: Resize_def Let_def split: outcome.splits)
  from SimpleVector_size_Done [OF s]
  have tmp: "vsize tmp = n" "capacity tmp = n" "cells (Get (items tmp)) = replicate n d" by auto
  from r le s tmp obtain s' p E2 q where
    m: "(if \<not> IsEmpty v then std_move mv (Get (items v)) 0 (vsize v) (Get (items tmp)) 0 E1
         else Done (Get (items v), Get (items tmp), E1)) = Done (s', p, E2)" and
    g: "generate p (vsize v) n d E2 = Done (q, E')" and
    v': "v' = with_block tmp q"
    by (auto simp: Resize_def Let_def SimpleVector_swap_eq with_block_simps
             split: outcome.splits)
  have p: "length (cells p) = n \<and> vsize v \<le> length (cells (Get (items v))) \<and>
           (\<forall>i < n. cells p ! i = (if i < vsize v then cells (Get (items v)) ! i else d))"
  proof (cases "IsEmpty v")
    case True
    with m tmp show ?thesis by (auto simp: IsEmpty_def)
  next
    case False
    with m have c: "std_move mv (Get (items v)) 0 (vsize v) (Get (items tmp)) 0 E1 = Done (s', p, E2)"
      by simp
    from False have "0 < vsize v" by (simp add: IsEmpty_def)
    with std_move_Done [OF c] tmp show ?thesis by auto
  qed
  from generate_Done [OF g] p
  have q: "length (cells q) = n"
    "\<forall>i < n. cells q ! i = (if i < vsize v then cells (Get (items v)) ! i else d)"
    by auto
  have v'_fields: "vsize v' = n" "capacity v' = n" "cells (Get (items v')) = cells q"
    using v' tmp by (simp_all add: with_block_simps)
  have "elements v' = elements v @ replicate (n - vsize v) d"
    unfolding elements_def using v'_fields q p le
    by (auto simp: list_eq_iff_nth_eq nth_append)
  with v'_fields q p show ?thesis by simp
qed

lemma Resize_no_throw:
  assumes t: "throw_after E = None" and inv: "vsize v \<le> length (cells (Get (items v)))"
  shows "\<exists>v' E'. Resize d mv n v E = Done (v', E') \<and> throw_after E' = None"
proof (cases "vsize v \<le> n")
  case False
  then show ?thesis using t by (simp add: Resize_def)
next
  case True
  from SimpleVector_size_no_throw [OF t, of d n] obtain tmp E1 where
    s: "SimpleVector_size d n E = Done (tmp, E1)" and t1: "throw_after E1 = None" by blast
  from SimpleVector_size_Done [OF s]
  have tmp: "vsize tmp = n" "capacity tmp = n" "cells (Get (items tmp)) = replicate n d" by auto
  have "\<exists>s' p. (if \<not> IsEmpty v then std_move mv (Get (items v)) 0 (vsize v) (Get (items tmp)) 0 E1
         else Done (Get (items v), Get (items tmp), E1)) = Done (s', p, E1) \<and> length (cells p) = n"
  proof (cases "IsEmpty v")
    case True
    then show ?thesis using tmp by simp
  next
    case False
    from std_move_no_throw [OF t1, of 0 "vsize v" "Get (items v)" 0 "Get (items tmp)" mv] inv True tmp
    obtain s' p where c: "std_move mv (Get (items v)) 0 (vsize v) (Get (items tmp)) 0 E1 = Done (s', p, E1)"
      by auto
    from std_move_Done [OF c] tmp have "length (cells p) = n" by simp
    with c False show ?thesis by simp
  qed
  then obtain s' p where
    m: "(if \<not> IsEmpty v then std_move mv (Get (items v)) 0 (vsize v) (Get (items tmp)) 0 E1
         else Done (Get (items v), Get (items tmp), E1)) = Done (s', p, E1)" and lp: "length (cells p) = n"
    by blast
  from generate_no_throw [OF t1, of "vsize v" n p d] True lp
  obtain q where g: "generate p (vsize v) n d E1 = Done (q, E1)" by auto
  show ?thesis
    using True s m g t1 tmp
    by (simp add: Resize_def Let_def SimpleVector_swap_eq with_block_simps)
qed

lemma example_123_built:
  "SimpleVector_init 0 [1, 2, 3] \<lparr>next_addr = 0, throw_after = None\<rparr> = Done (example_123, env0)"
  by code_simp

lemma example_reserved_built:
  "Reserve 0 id 5 example_123 env0 = Done (example_reserved, \<lparr>next_addr = 2, throw_after = None\<rparr>)"
  by code_simp

section \<open>Resize\<close>

text \<open>
  C2.  The specification says that \<open>Resize(newSize)\<close> with \<open>newSize\<close> greater than the
  size keeps the old elements, fills the new tail with the default value and leaves
  \<open>size = newSize\<close> and \<open>capacity = newSize * 2\<close>.  The code assigns
  \<open>capacity_ = size_ * 2\<close> and then swaps with \<open>tmp\<close>, which hands that value to the
  temporary: on \<open>{1, 2, 3}\<close>, \<open>Resize(5)\<close> ends with the elements \<open>1, 2, 3, 0, 0\<close>,
  size 5 and capacity 5, not 10.
\<close>

theorem Resize_grow_capacity_at_5:
  "Resize 0 id 5 example_123 env0 =
     Done (\<lparr>items = \<lparr>raw_ptr = Array 1 [1, 2, 3, 0, 0], ap_capacity = 5\<rparr>, vsize = 5, capacity = 5\<rparr>,
           \<lparr>next_addr = 2, throw_after = None\<rparr>)"
  by code_simp

text \<open>
  C3, as stated, fails when \<open>n\<close> equals the size: the test \<open>size_ <= new_size\<close> sends
  that case through the reallocating branch.  A vector of size 3 and capacity 5 has
  capacity 3 and a new block after \<open>Resize(3)\<close>.
\<close>

theorem Resize_to_same_size_counterexample:
  "vsize example_reserved = 3 \<and> capacity example_reserved = 5 \<and>
   Resize 0 id 3 example_reserved env0 =
     Done (\<lparr>items = \<lparr>raw_ptr = Array 1 [1, 2, 3], ap_capacity = 3\<rparr>, vsize = 3, capacity = 3\<rparr>,
           \<lparr>next_addr = 2, throw_after = None\<rparr>)"
  by code_simp

text \<open>
  C3, amended.  For every vector and every \<open>n\<close> strictly less than its size,
  \<open>Resize(n)\<close> shrinks in place and cannot fail: the size becomes \<open>n\<close>, the capacity
  and the buffer are unchanged and the elements at \<open>[0, n)\<close> are unchanged.  For \<open>n\<close>
  equal to the size the call takes the reallocating branch: it completes when nothing
  throws and the buffer holds at least size elements, and when it completes the size
  and the elements are unchanged.
\<close>

theorem Resize_not_larger:
  assumes "n \<le> vsize v"
  shows "(n < vsize v \<longrightarrow>
            Resize d mv n v E = Done (v\<lparr>vsize := n\<rparr>, E) \<and>
            capacity (v\<lparr>vsize := n\<rparr>) = capacity v \<and> items (v\<lparr>vsize := n\<rparr>) = items v) \<and>
         (throw_after E = None \<and> vsize v \<le> length (cells (Get (items v))) \<longrightarrow>
            (\<exists>v' E'. Resize d mv n v E = Done (v', E'))) \<and>
         (\<forall>v' E'. Resize d mv n v E = Done (v', E') \<longrightarrow>
            vsize v' = n \<and> elements v' = take n (elements v))"
proof (intro conjI allI impI)
  assume "n < vsize v"
  then show "Resize d mv n v E = Done (v\<lparr>vsize := n\<rparr>, E)" by (rule Resize_shrink)
next
  show "capacity (v\<lparr>vsize := n\<rparr>) = capacity v" "items (v\<lparr>vsize := n\<rparr>) = items v" by simp_all
next
  assume "throw_after E = None \<and> vsize v \<le> length (cells (Get (items v)))"
  then show "\<exists>v' E'. Resize d mv n v E = Done (v', E')"
    using Resize_no_throw [of E v d mv n] by blast
next
  fix v' E'
  assume r: "Resize d mv n v E = Done (v', E')"
  show "vsize v' = n"
  proof (cases "n < vsize v")
    case True
    with r show ?thesis by (auto simp: Resize_shrink)
  next
    case False
    with assms Resize_grow_Done [OF r] show ?thesis by simp
  qed
  show "elements v' = take n (elements v)"
  proof (cases "n < vsize v")
    case True
    with r show ?thesis by (auto simp: Resize_shrink elements_def min_def)
  next
    case False
    with assms have n: "n = vsize v" by simp
    with Resize_grow_Done [OF r] have "elements v' = elements v" by simp
    with n show ?thesis by (simp add: elements_def)
  qed
qed

text \<open>
  The theorem at \<open>{1, 2, 3}\<close> with \<open>n = 2\<close>, and at the vector of size 3 and
  capacity 5 with \<open>n = 3\<close>.
\<close>

theorem Resize_not_larger_witness:
  "2 < vsize example_123 \<and>
   Resize 0 id 2 example_123 env0 = Done (example_123\<lparr>vsize := 2\<rparr>, env0) \<and>
   capacity (example_123\<lparr>vsize := 2\<rparr>) = capacity example_123 \<and>
   items (example_123\<lparr>vsize := 2\<rparr>) = items example_123 \<and>
   elements (example_123\<lparr>vsize := 2\<rparr>) = [1, 2] \<and>
   3 = vsize example_reserved \<and> throw_after env0 = None \<and>
   vsize example_reserved \<le> length (cells (Get (items example_reserved))) \<and>
   (\<exists>v' E'. Resize 0 id 3 example_reserved env0 = Done (v', E') \<and>
       vsize v' = 3 \<and> elements v' = [1, 2, 3])"
proof -
  have a: "2 \<le> vsize example_123" "2 < vsize example_123"
    by (simp_all add: example_123_def)
  have b: "3 \<le> vsize example_reserved" "3 = vsize example_reserved"
    "throw_after env0 = None"
    "vsize example_reserved \<le> length (cells (Get (items example_reserved)))"
    by (simp_all add: example_reserved_def Get_def env0_def)
  have c: "take 2 (elements example_123) = [1, 2]" "take 3 (elements example_reserved) = [1, 2, 3]"
    by (simp_all add: elements_def example_123_def example_reserved_def Get_def)
  note shrink = Resize_not_larger [OF a(1), of 0 id env0]
  note same = Resize_not_larger [OF b(1), of 0 id env0]
  from shrink a(2) have r2: "Resize 0 id 2 example_123 env0 = Done (example_123\<lparr>vsize := 2\<rparr>, env0)"
    by blast
  with shrink have e2: "elements (example_123\<lparr>vsize := 2\<rparr>) = take 2 (elements example_123)"
    by blast
  from shrink a(2) have k2: "capacity (example_123\<lparr>vsize := 2\<rparr>) = capacity example_123"
    "items (example_123\<lparr>vsize := 2\<rparr>) = items example_123" by blast+
  from same b(3,4) obtain v' E' where r3: "Resize 0 id 3 example_reserved env0 = Done (v', E')"
    by blast
  with same have "vsize v' = 3 \<and> elements v' = take 3 (elements example_reserved)"
    by blast
  with r3 c(2) have "\<exists>v' E'. Resize 0 id 3 example_reserved env0 = Done (v', E') \<and>
       vsize v' = 3 \<and> elements v' = [1, 2, 3]"
    by auto
  with a b r2 e2 k2 c(1) show ?thesis by simp
qed

section \<open>ArrayPtr: moves and the invariant of the handle\<close>

text \<open>
  C5, as stated, fails for move assignment into a buffer that owns a block: the
  assignment is a swap, so the source is left with the block the destination had, not in
  the empty state.
\<close>

theorem ArrayPtr_move_assign_counterexample:
  "ArrayPtr_move_assign \<lparr>raw_ptr = Array 1 [0::nat], ap_capacity = 1\<rparr>
       (Other \<lparr>raw_ptr = Array 2 [0, 0], ap_capacity = 2\<rparr>) =
     (\<lparr>raw_ptr = Array 2 [0, 0], ap_capacity = 2\<rparr>,
      Other \<lparr>raw_ptr = Array 1 [0], ap_capacity = 1\<rparr>) \<and>
   raw_ptr \<lparr>raw_ptr = Array 1 [0::nat], ap_capacity = 1\<rparr> \<noteq> Null"
  by (simp add: ArrayPtr_move_assign_def ArrayPtr_swap_def)

text \<open>
  C5, amended.  Move construction gives the new buffer the block and the capacity of the
  source and leaves the source in the empty state (null pointer, capacity 0).  Move
  assignment into another buffer gives the destination the block and the capacity of
  the source and leaves in the source what the destination held before; move assignment
  of a buffer to itself changes nothing.
\<close>

theorem ArrayPtr_move_exchanges:
  "ArrayPtr_move other = (other, ArrayPtr_default) \<and>
   raw_ptr (ArrayPtr_default :: 'a ArrayPtr) = Null \<and>
   ap_capacity (ArrayPtr_default :: 'a ArrayPtr) = 0 \<and>
   ArrayPtr_move_assign this (Other rhs) = (rhs, Other this) \<and>
   ArrayPtr_move_assign this Self = (this, Self)"
  by (simp add: ArrayPtr_move_def ArrayPtr_move_assign_def ArrayPtr_swap_eq ArrayPtr_default_def)

text \<open>
  C6, as stated, fails for \<open>Release\<close>: the buffer built by \<open>ArrayPtr(1)\<close> has a
  block and capacity 1, and after \<open>Release()\<close> its pointer is null while the recorded
  capacity is still 1.  It fails for construction from a raw block as well: the buffer
  built from the released block holds the block with a recorded capacity of 0.
\<close>

theorem Release_buffer_inv_counterexample:
  "ArrayPtr_size (0::nat) 1 env0 =
     Done (\<lparr>raw_ptr = Array 1 [0], ap_capacity = 1\<rparr>, \<lparr>next_addr = 2, throw_after = None\<rparr>) \<and>
   Release \<lparr>raw_ptr = Array 1 [0::nat], ap_capacity = 1\<rparr> =
     (Array 1 [0], \<lparr>raw_ptr = Null, ap_capacity = 1\<rparr>) \<and>
   \<not> buffer_inv \<lparr>raw_ptr = (Null :: nat raw), ap_capacity = 1\<rparr> \<and>
   ArrayPtr_raw (Array 1 [0::nat]) = \<lparr>raw_ptr = Array 1 [0], ap_capacity = 0\<rparr> \<and>
   \<not> buffer_inv \<lparr>raw_ptr = Array 1 [0::nat], ap_capacity = 0\<rparr>"
  by (simp add: ArrayPtr_size_def new_array_def attempt_def env0_def ArrayPtr_default_def
        Release_def ArrayPtr_raw_def buffer_inv_def)

lemma ArrayPtr_size_buffer_inv: "ArrayPtr_size d n E = Done (ap, E') \<Longrightarrow> buffer_inv ap"
  by (auto simp: ArrayPtr_size_def ArrayPtr_default_def new_array_def buffer_inv_def
           split: if_splits option.splits)

text \<open>
  C6, amended.  Construction from a size and default construction give a buffer whose
  pointer is empty if and only if its recorded capacity is 0; move construction, move
  assignment and swap keep that property when their operands have it.  \<open>Release\<close> and
  \<open>Delete\<close> empty the pointer and leave the recorded capacity as it was, so the
  property holds after them exactly when the capacity was 0; construction from a raw
  block records capacity 0, so the property holds exactly when the block is null.
\<close>

theorem buffer_inv_operations:
  "(\<forall>ap E'. ArrayPtr_size (d :: 'a) n E = Done (ap, E') \<longrightarrow> buffer_inv ap) \<and>
   buffer_inv (ArrayPtr_default :: 'a ArrayPtr) \<and>
   (buffer_inv (other :: 'a ArrayPtr) \<longrightarrow>
      buffer_inv (fst (ArrayPtr_move other)) \<and> buffer_inv (snd (ArrayPtr_move other))) \<and>
   (buffer_inv this \<and> buffer_inv other \<longrightarrow>
      buffer_inv (fst (ArrayPtr_swap this other)) \<and> buffer_inv (snd (ArrayPtr_swap this other)) \<and>
      ArrayPtr_move_assign this (Other other) = (other, Other this) \<and>
      ArrayPtr_move_assign this Self = (this, Self)) \<and>
   Release this = (raw_ptr this, this\<lparr>raw_ptr := Null\<rparr>) \<and>
   buffer_inv (snd (Release this)) = (ap_capacity this = 0) \<and>
   Delete this = this\<lparr>raw_ptr := Null\<rparr> \<and>
   buffer_inv (Delete this) = (ap_capacity this = 0) \<and>
   ArrayPtr_raw (p :: 'a raw) = \<lparr>raw_ptr = p, ap_capacity = 0\<rparr> \<and>
   buffer_inv (ArrayPtr_raw p) = (p = Null)"
proof -
  have 1: "\<forall>ap E'. ArrayPtr_size d n E = Done (ap, E') \<longrightarrow> buffer_inv ap"
    by (blast intro: ArrayPtr_size_buffer_inv)
  have 2: "buffer_inv (ArrayPtr_default :: 'a ArrayPtr)"
    by (simp add: buffer_inv_def ArrayPtr_default_def)
  have 3: "buffer_inv other \<longrightarrow>
      buffer_inv (fst (ArrayPtr_move other)) \<and> buffer_inv (snd (ArrayPtr_move other))"
    using 2 by (auto simp: ArrayPtr_move_def ArrayPtr_move_assign_eq)
  have 4: "buffer_inv this \<and> buffer_inv other \<longrightarrow>
      buffer_inv (fst (ArrayPtr_swap this other)) \<and> buffer_inv (snd (ArrayPtr_swap this other)) \<and>
      ArrayPtr_move_assign this (Other other) = (other, Other this) \<and>
      ArrayPtr_move_assign this Self = (this, Self)"
    by (simp add: ArrayPtr_swap_eq ArrayPtr_move_assign_eq)
  have 5: "Release this = (raw_ptr this, this\<lparr>raw_ptr := Null\<rparr>)"
    "buffer_inv (snd (Release this)) = (ap_capacity this = 0)"
    "Delete this = this\<lparr>raw_ptr := Null\<rparr>"
    "buffer_inv (Delete this) = (ap_capacity this = 0)"
    by (auto simp: Release_def Delete_def buffer_inv_def)
  have 6: "ArrayPtr_raw p = \<lparr>raw_ptr = p, ap_capacity = 0\<rparr>"
    "buffer_inv (ArrayPtr_raw p) = (p = Null)"
    by (simp_all add: ArrayPtr_raw_def ArrayPtr_default_def buffer_inv_def)
  from 1 2 3 4 5 6 show ?thesis by blast
qed

text \<open>The theorem at the buffer built by \<open>ArrayPtr(2)\<close> and a default-constructed one.\<close>

theorem buffer_inv_operations_witness:
  "ArrayPtr_size (0::nat) 2 env0 =
     Done (\<lparr>raw_ptr = Array 1 [0, 0], ap_capacity = 2\<rparr>, \<lparr>next_addr = 2, throw_after = None\<rparr>) \<and>
   buffer_inv \<lparr>raw_ptr = Array 1 [0::nat, 0], ap_capacity = 2\<rparr> \<and>
   buffer_inv (ArrayPtr_default :: nat ArrayPtr) \<and>
   buffer_inv (fst (ArrayPtr_move \<lparr>raw_ptr = Array 1 [0::nat, 0], ap_capacity = 2\<rparr>)) \<and>
   buffer_inv (snd (ArrayPtr_move \<lparr>raw_ptr = Array 1 [0::nat, 0], ap_capacity = 2\<rparr>)) \<and>
   buffer_inv (fst (ArrayPtr_swap ArrayPtr_default \<lparr>raw_ptr = Array 1 [0::nat, 0], ap_capacity = 2\<rparr>)) \<and>
   buffer_inv (snd (ArrayPtr_swap ArrayPtr_default \<lparr>raw_ptr = Array 1 [0::nat, 0], ap_capacity = 2\<rparr>))"
proof -
  let ?A = "\<lparr>raw_ptr = Array 1 [0::nat, 0], ap_capacity = 2\<rparr>"
  have s: "ArrayPtr_size (0::nat) 2 env0 = Done (?A, \<lparr>next_addr = 2, throw_after = None\<rparr>)"
    by code_simp
  note t = buffer_inv_operations
    [where d = 0 and n = 2 and E = env0 and other = ?A and this = ArrayPtr_default
       and p = "Null :: nat raw"]
  from t [THEN conjunct1] s have a: "buffer_inv ?A" by blast
  from t [THEN conjunct2, THEN conjunct1] have d: "buffer_inv (ArrayPtr_default :: nat ArrayPtr)" .
  from t [THEN conjunct2, THEN conjunct2, THEN conjunct1] a
  have m: "buffer_inv (fst (ArrayPtr_move ?A)) \<and> buffer_inv (snd (ArrayPtr_move ?A))"
    by (rule mp)
  from t [THEN conjunct2, THEN conjunct2, THEN conjunct2, THEN conjunct1] a d
  have "buffer_inv (fst (ArrayPtr_swap ArrayPtr_default ?A)) \<and>
      buffer_inv (snd (ArrayPtr_swap ArrayPtr_default ?A))" by blast
  with s a d m show ?thesis by blast
qed

section \<open>Copies and moves of vectors\<close>

text \<open>
  C8.  A copy assignment \<open>a = b\<close> from a distinct, empty vector \<open>b\<close> is a
  \<open>Clear()\<close> of \<open>a\<close>: it cannot fail, the size of \<open>a\<close> becomes 0, its capacity and
  its buffer are the ones it had.
\<close>

theorem copy_assign_from_empty:
  "IsEmpty rhs \<Longrightarrow>
     copy_assign d this (Other rhs) E = Done (Clear this, E) \<and>
     vsize (Clear this) = 0 \<and> capacity (Clear this) = capacity this \<and>
     items (Clear this) = items this"
  by (simp add: copy_assign_def Clear_def)

text \<open>The theorem at the vector of size 3 and capacity 5, assigned a default-constructed vector.\<close>

theorem copy_assign_from_empty_witness:
  "IsEmpty (SimpleVector_default :: nat SimpleVector) \<and>
   copy_assign 0 example_reserved (Other SimpleVector_default) env0 =
     Done (example_reserved\<lparr>vsize := 0\<rparr>, env0) \<and>
   capacity (example_reserved\<lparr>vsize := 0\<rparr>) = 5"
proof -
  have e: "IsEmpty (SimpleVector_default :: nat SimpleVector)"
    by (simp add: IsEmpty_def SimpleVector_default_def)
  from copy_assign_from_empty [OF e, of 0 example_reserved env0] e
  show ?thesis by (simp add: Clear_def example_reserved_def)
qed

text \<open>
  C9.  Move assignment of a vector from itself, or from any vector whose buffer pointer
  equals its own, changes nothing: size, capacity, buffer and elements of both are as
  before.
\<close>

theorem move_assign_same_buffer:
  "move_assign d mv this Self E = Done (this, Self, E) \<and>
   (address (Get (items this)) = address (Get (items rhs)) \<longrightarrow>
      move_assign d mv this (Other rhs) E = Done (this, Other rhs, E))"
  by (simp add: move_assign_def)

text \<open>
  The theorem at \<open>a = std::move(a)\<close> for \<open>{1, 2, 3}\<close>, and at a default-constructed
  vector assigned from a moved-from one (both pointers are null).
\<close>

theorem move_assign_same_buffer_witness:
  "move_assign 0 id example_123 Self env0 = Done (example_123, Self, env0) \<and>
   address (Get (items (SimpleVector_default :: nat SimpleVector))) =
     address (Get (items (snd (SimpleVector_move example_123)))) \<and>
   move_assign 0 id SimpleVector_default (Other (snd (SimpleVector_move example_123))) env0 =
     Done (SimpleVector_default, Other (snd (SimpleVector_move example_123)), env0)"
proof -
  have a: "address (Get (items (SimpleVector_default :: nat SimpleVector))) =
     address (Get (items (snd (SimpleVector_move example_123))))"
    by (simp add: SimpleVector_default_def SimpleVector_move_def ArrayPtr_move_def
          ArrayPtr_move_assign_eq ArrayPtr_default_def Get_def Clear_def)
  have s: "move_assign 0 id example_123 Self env0 = Done (example_123, Self, env0)"
    by (rule move_assign_same_buffer
          [where d = 0 and mv = id and this = example_123 and E = env0 and rhs = example_123,
             THEN conjunct1])
  have "move_assign 0 id SimpleVector_default (Other (snd (SimpleVector_move example_123))) env0 =
     Done (SimpleVector_default, Other (snd (SimpleVector_move example_123)), env0)"
    by (rule move_assign_same_buffer
          [where d = 0 and mv = id and this = SimpleVector_default and E = env0
             and rhs = "snd (SimpleVector_move example_123)", THEN conjunct2, THEN mp, OF a])
  with a s show ?thesis by (intro conjI)
qed

lemma take_eq_nth:
  assumes "0 < n \<longrightarrow> n \<le> length xs \<and> n \<le> length ys" and "\<forall>i < n. xs ! i = ys ! i"
  shows "take n xs = take n ys"
proof (cases "n = 0")
  case True
  then show ?thesis by simp
next
  case False
  with assms(1) have "length (take n xs) = length (take n ys)" by simp
  moreover have "\<forall>i < length (take n xs). take n xs ! i = take n ys ! i"
    using assms(2) by simp
  ultimately show ?thesis by (simp only: list_eq_iff_nth_eq)
qed

lemma SimpleVector_copy_Done:
  assumes c: "SimpleVector_copy d other E = Done (v, E')"
  shows "capacity v = vsize other \<and> vsize v = vsize other \<and>
         length (cells (Get (items v))) = vsize other \<and> elements v = elements other"
proof -
  from c obtain tmp E1 p where
    s: "SimpleVector_size d (vsize other) E = Done (tmp, E1)" and
    cp: "std_copy (Get (items other)) 0 (vsize other) (Get (items tmp)) 0 E1 = Done (p, E')" and
    v: "v = with_block tmp p"
    by (auto simp: SimpleVector_copy_def SimpleVector_swap_eq split: outcome.splits)
  from SimpleVector_size_Done [OF s]
  have tmp: "vsize tmp = vsize other" "capacity tmp = vsize other"
    "cells (Get (items tmp)) = replicate (vsize other) d" by auto
  from std_copy_Done [OF cp] tmp
  have p: "length (cells p) = vsize other"
    "0 < vsize other \<longrightarrow> vsize other \<le> length (cells (Get (items other)))"
    "\<forall>i < vsize other. cells p ! i = cells (Get (items other)) ! i"
    by auto
  have fields: "vsize v = vsize other" "capacity v = vsize other" "cells (Get (items v)) = cells p"
    using v tmp by (simp_all add: with_block_simps)
  have "take (vsize other) (cells p) = take (vsize other) (cells (Get (items other)))"
    using p by (intro take_eq_nth) simp_all
  with fields p show ?thesis by (simp add: elements_def)
qed

lemma SimpleVector_copy_no_throw:
  assumes t: "throw_after E = None" and inv: "vsize other \<le> length (cells (Get (items other)))"
  shows "\<exists>v E'. SimpleVector_copy d other E = Done (v, E') \<and> throw_after E' = None"
proof -
  from SimpleVector_size_no_throw [OF t, of d "vsize other"] obtain tmp E1 where
    s: "SimpleVector_size d (vsize other) E = Done (tmp, E1)" and t1: "throw_after E1 = None"
    by blast
  from SimpleVector_size_Done [OF s]
  have tmp: "cells (Get (items tmp)) = replicate (vsize other) d" by simp
  from std_copy_no_throw [OF t1, of 0 "vsize other" "Get (items other)" 0 "Get (items tmp)"] inv tmp
  obtain p where "std_copy (Get (items other)) 0 (vsize other) (Get (items tmp)) 0 E1 = Done (p, E1)"
    by auto
  with s t1 show ?thesis by (simp add: SimpleVector_copy_def SimpleVector_swap_eq)
qed

text \<open>
  C10.  Copy construction completes when nothing throws, and the copy has the elements
  and the size of the source and a capacity equal to the size of the source, whatever the
  capacity of the source.
\<close>

theorem copy_capacity_is_source_size:
  "(throw_after E = None \<and> vector_inv other \<longrightarrow> (\<exists>v E'. SimpleVector_copy d other E = Done (v, E'))) \<and>
   (\<forall>v E'. SimpleVector_copy d other E = Done (v, E') \<longrightarrow>
      capacity v = vsize other \<and> vsize v = vsize other \<and> elements v = elements other)"
proof (intro conjI allI impI)
  assume "throw_after E = None \<and> vector_inv other"
  then show "\<exists>v E'. SimpleVector_copy d other E = Done (v, E')"
    using SimpleVector_copy_no_throw [of E other d] by (auto simp: vector_inv_def)
qed (simp_all add: SimpleVector_copy_Done)

text \<open>The theorem at the vector of size 3 and capacity 5: the copy has capacity 3.\<close>

theorem copy_capacity_is_source_size_witness:
  "throw_after env0 = None \<and> vector_inv example_reserved \<and>
   vsize example_reserved = 3 \<and> capacity example_reserved = 5 \<and>
   (\<exists>v E'. SimpleVector_copy 0 example_reserved env0 = Done (v, E') \<and>
      capacity v = 3 \<and> vsize v = 3 \<and> elements v = [1, 2, 3])"
proof -
  have a: "throw_after env0 = None" "vector_inv example_reserved"
    "vsize example_reserved = 3" "capacity example_reserved = 5"
    "elements example_reserved = [1, 2, 3]"
    by (simp_all add: env0_def vector_inv_def example_reserved_def Get_def elements_def)
  note t = copy_capacity_is_source_size [of env0 example_reserved 0]
  from t a obtain v E' where c: "SimpleVector_copy 0 example_reserved env0 = Done (v, E')"
    by blast
  with t have "capacity v = vsize example_reserved \<and> vsize v = vsize example_reserved \<and>
      elements v = elements example_reserved" by blast
  with c a show ?thesis by auto
qed

text \<open>
  C4.  The specification says that after \<open>b = std::move(a)\<close> the vector \<open>b\<close> holds the
  elements and the size of \<open>a\<close> and \<open>a.size() == 0\<close>.  The move constructor clears
  its source; the move assignment operator moves the elements across and leaves the
  size of its source as it was.  For an empty \<open>b\<close> and \<open>a = {1, 2, 3}\<close>, \<open>b\<close> ends
  with \<open>1, 2, 3\<close> and \<open>a\<close> still has size 3.
\<close>

theorem move_assign_keeps_source_size:
  "move_assign 0 id SimpleVector_default (Other example_123) env0 =
     Done (\<lparr>items = \<lparr>raw_ptr = Array 1 [1, 2, 3], ap_capacity = 3\<rparr>, vsize = 3, capacity = 3\<rparr>,
           Other example_123, \<lparr>next_addr = 2, throw_after = None\<rparr>) \<and>
   vsize example_123 = 3 \<and>
   SimpleVector_move example_123 =
     (example_123, \<lparr>items = \<lparr>raw_ptr = Null, ap_capacity = 0\<rparr>, vsize = 0, capacity = 3\<rparr>)"
  by code_simp

text \<open>
  C1.  The specification says that a failing growth leaves size, capacity and elements
  as they were.  \<open>Resize\<close> adopts the new block and then fills the tail again; when that
  last \<open>Type()\<close> throws (here the third construction), the empty vector is left with
  size 1 and capacity 1.  \<open>PushBack(Type&&)\<close> adopts the new block and increments the size
  before the assignment of the value; when that assignment throws, the empty vector is
  left with size 1 and capacity 1 as well.
\<close>

theorem Resize_throw_leaves_vector_changed:
  "Resize (0::nat) id 1 SimpleVector_default \<lparr>next_addr = 1, throw_after = Some 3\<rparr> =
     Raised ElemThrow \<lparr>items = \<lparr>raw_ptr = Array 1 [0], ap_capacity = 1\<rparr>, vsize = 1, capacity = 1\<rparr> \<and>
   PushBack_move (0::nat) id (Value 7) SimpleVector_default \<lparr>next_addr = 1, throw_after = Some 2\<rparr> =
     Raised ElemThrow \<lparr>items = \<lparr>raw_ptr = Array 1 [0], ap_capacity = 1\<rparr>, vsize = 1, capacity = 1\<rparr> \<and>
   vsize (SimpleVector_default :: nat SimpleVector) = 0 \<and>
   capacity (SimpleVector_default :: nat SimpleVector) = 0"
  by code_simp

section \<open>Insert\<close>



lemma shift_and_put_no_throw:
  assumes t: "throw_after E = None" and pos: "pos \<le> n" and n: "Suc n \<le> length (cells p)"
  shows "\<exists>p1 q. std_copy_backward p pos n (n + 1) E = Done (p1, E) \<and>
                 assign_at p1 pos val E = Done (q, E)"
proof -
  from std_copy_backward_no_throw [OF t pos, of "n + 1" p] n
  obtain p1 where cb: "std_copy_backward p pos n (n + 1) E = Done (p1, E)" by auto
  from std_copy_backward_Done [OF cb] have "length (cells p1) = length (cells p)" by simp
  with assign_at_no_throw [OF t, of pos p1 val] pos n
  obtain q where "assign_at p1 pos val E = Done (q, E)" by auto
  with cb show ?thesis by blast
qed




lemma move_arg_within_Value:
  "move_arg_within mv p (Value x) i E = assign_at p i x E"
  by (simp add: move_arg_within_def split: outcome.splits)















section \<open>Exceptions before the new buffer is adopted\<close>

text \<open>
  The by-copy paths build the replacement block completely before they adopt it, and
  copying leaves the old block as it was: an exception leaves them with the vector
  unchanged.  (The paths that move the elements across leave the cells already moved
  in their moved-from state.)
\<close>

lemma with_block_same: "with_block this (Get (items this)) = this"
  by (simp add: with_block_def Get_def)

lemma copy_assign_Raised: "copy_assign d this rhs E = Raised e s \<Longrightarrow> s = this"
  by (auto simp: copy_assign_def SimpleVector_swap_eq split: if_splits outcome.splits)

lemma PushBack_copy_Raised:
  assumes "PushBack_copy d a this E = Raised e s"
  shows "s = this"
proof (cases "vsize this + 1 > capacity this")
  case True
  with assms show ?thesis
    by (auto simp: PushBack_copy_def Let_def ArrayPtr_swap_eq split: outcome.splits option.splits)
next
  case False
  with assms obtain x p where "assign_at (Get (items this)) (vsize this) x E = Raised e p"
    "s = with_block this p"
    by (auto simp: PushBack_copy_def Let_def split: outcome.splits option.splits)
  with assign_at_Raised show ?thesis by (metis with_block_same)
qed

lemma Insert_copy_realloc_Raised:
  "\<not> vsize this + 1 \<le> capacity this \<Longrightarrow> Insert_copy d pos a this E = Raised e s \<Longrightarrow> s = this"
  by (auto simp: Insert_copy_def Let_def ArrayPtr_swap_eq
           split: if_splits outcome.splits option.splits)

section \<open>The vector invariant\<close>

text \<open>
  Every constructor but the move constructor builds a vector that satisfies the
  invariant, and \<open>Clear\<close>, \<open>Resize\<close>, \<open>Reserve\<close>, \<open>PushBack\<close> and \<open>Insert\<close> keep it.
\<close>

lemma vector_inv_default: "vector_inv SimpleVector_default"
  by (simp add: vector_inv_def SimpleVector_default_def ArrayPtr_default_def Get_def)

lemma vector_inv_SimpleVector_size:
  "SimpleVector_size d n E = Done (v, E') \<Longrightarrow> vector_inv v"
  using SimpleVector_size_Done [of d n E v E'] by (simp add: vector_inv_def)

lemma vector_inv_SimpleVector_reserve:
  "SimpleVector_reserve d n E = Done (v, E') \<Longrightarrow> vector_inv v \<and> vsize v = 0 \<and> capacity v = n"
  using ArrayPtr_size_Done [of d n E]
  by (auto simp: SimpleVector_reserve_def vector_inv_def Get_def split: outcome.splits)

lemma vector_inv_SimpleVector_copy:
  "SimpleVector_copy d other E = Done (v, E') \<Longrightarrow> vector_inv v"
  using SimpleVector_copy_Done [of d other E v E'] by (simp add: vector_inv_def)

lemma SimpleVector_init_Done:
  assumes "SimpleVector_init d init E = Done (v, E')"
  shows "vector_inv v \<and> vsize v = length init \<and> elements v = init"
proof -
  from assms obtain ap E1 p where
    a: "ArrayPtr_size d (length init) E = Done (ap, E1)" and
    c: "std_copy (Array 0 init) 0 (length init) (raw_ptr ap) 0 E1 = Done (p, E')" and
    v: "v = \<lparr>items = ap\<lparr>raw_ptr := p\<rparr>, vsize = length init, capacity = length init\<rparr>"
    by (auto simp: SimpleVector_init_def Let_def with_block_def Get_def
             split: outcome.splits)
  from ArrayPtr_size_Done [OF a] have l: "length (cells (raw_ptr ap)) = length init" by simp
  from std_copy_Done [OF c] l
  have p: "length (cells p) = length init" "\<forall>i < length init. cells p ! i = init ! i" by auto
  then have "cells p = init" by (simp add: list_eq_iff_nth_eq)
  with v show ?thesis by (simp add: vector_inv_def elements_def Get_def)
qed

lemma vector_inv_Clear: "vector_inv v \<Longrightarrow> vector_inv (Clear v)"
  by (simp add: vector_inv_def Clear_def)

lemma vector_inv_Resize:
  assumes "Resize d mv n v E = Done (v', E')" and "vector_inv v"
  shows "vector_inv v'"
proof (cases "vsize v \<le> n")
  case True
  with Resize_grow_Done [OF assms(1)] show ?thesis by (simp add: vector_inv_def)
next
  case False
  with assms show ?thesis by (auto simp: Resize_def vector_inv_def)
qed

lemma Reserve_Done:
  assumes r: "Reserve d mv n v E = Done (v', E')" and inv: "vector_inv v"
  shows "vector_inv v' \<and> vsize v' = vsize v \<and> capacity v' = max n (capacity v) \<and>
         elements v' = elements v"
proof (cases "n > capacity v")
  case False
  with r inv show ?thesis by (auto simp: Reserve_def)
next
  case True
  with r obtain new_vector E1 s' p where
    s: "SimpleVector_size d n E = Done (new_vector, E1)" and
    m: "std_move mv (Get (items v)) 0 (vsize v) (Get (items new_vector)) 0 E1 = Done (s', p, E')" and
    v': "v' = v\<lparr>items := (items new_vector)\<lparr>raw_ptr := p\<rparr>, capacity := n\<rparr>"
    by (auto simp: Reserve_def ArrayPtr_swap_eq split: outcome.splits)
  from SimpleVector_size_Done [OF s] have nv: "length (cells (Get (items new_vector))) = n" by simp
  from inv have cap: "vsize v \<le> capacity v" "length (cells (Get (items v))) = capacity v"
    by (simp_all add: vector_inv_def)
  from std_move_Done [OF m] nv
  have p: "length (cells p) = n" "\<forall>i < vsize v. cells p ! i = cells (Get (items v)) ! i"
    using cap True by auto
  have "take (vsize v) (cells p) = take (vsize v) (cells (Get (items v)))"
    using p cap True by (intro take_eq_nth) simp_all
  with v' p cap True show ?thesis by (simp add: vector_inv_def elements_def Get_def)
qed

lemma ReallocateCopy_Done:
  assumes r: "ReallocateCopy d n v E = Done (ap, E')" and le: "vsize v \<le> n"
    and inv: "vector_inv v"
  shows "length (cells (Get ap)) = n \<and>
         take (vsize v) (cells (Get ap)) = take (vsize v) (cells (Get (items v)))"
proof -
  from le have mn: "min n (vsize v) = vsize v" by simp
  from r obtain new_items E1 p where
    s: "ArrayPtr_size d n E = Done (new_items, E1)" and
    c: "std_copy (Get (items v)) 0 (vsize v) (Get new_items) 0 E1 = Done (p, E')" and
    ap: "ap = ArrayPtr_raw p"
    by (auto simp: ReallocateCopy_def Let_def Release_def mn split: outcome.splits)
  from ArrayPtr_size_Done [OF s] have ni: "length (cells (Get new_items)) = n" by (simp add: Get_def)
  from inv have cap: "vsize v \<le> length (cells (Get (items v)))" by (simp add: vector_inv_def)
  from std_copy_Done [OF c] ni
  have p: "length (cells p) = n" "\<forall>i < vsize v. cells p ! i = cells (Get (items v)) ! i"
    using le by auto
  have "take (vsize v) (cells p) = take (vsize v) (cells (Get (items v)))"
    using p cap le by (intro take_eq_nth) simp_all
  with ap p show ?thesis by (simp add: ArrayPtr_raw_def Get_def)
qed

lemma take_Suc_update:
  "n < length xs \<Longrightarrow> take (Suc n) (xs[n := x]) = take n xs @ [x]"
  by (simp add: take_Suc_conv_app_nth)

lemma PushBack_copy_Done:
  assumes r: "PushBack_copy d a v E = Done (v', E')" and inv: "vector_inv v"
    and x: "arg_load (Get (items v)) a = Some x"
  shows "vector_inv v' \<and> vsize v' = vsize v + 1 \<and> elements v' = elements v @ [x]"
proof -
  from inv have cap: "vsize v \<le> capacity v" "length (cells (Get (items v))) = capacity v"
    by (simp_all add: vector_inv_def)
  show ?thesis
  proof (cases "vsize v + 1 > capacity v")
    case True
    define ncap where "ncap = max (capacity v * 2) (vsize v + 1)"
    from r True x obtain new_items E1 p where
      rc: "ReallocateCopy d ncap v E = Done (new_items, E1)" and
      a: "assign_at (Get new_items) (vsize v) x E1 = Done (p, E')" and
      v': "v' = v\<lparr>capacity := ncap, items := new_items\<lparr>raw_ptr := p\<rparr>, vsize := vsize v + 1\<rparr>"
      by (auto simp: PushBack_copy_def Let_def ArrayPtr_swap_eq ncap_def split: outcome.splits)
    have le: "vsize v \<le> ncap" "vsize v + 1 \<le> ncap" by (simp_all add: ncap_def)
    from ReallocateCopy_Done [OF rc le(1) inv] have
      ni: "length (cells (Get new_items)) = ncap"
          "take (vsize v) (cells (Get new_items)) = take (vsize v) (cells (Get (items v)))"
      by simp_all
    from assign_at_Done [OF a] have p: "cells p = (cells (Get new_items))[vsize v := x]" by simp
    from le ni have "take (Suc (vsize v)) (cells p) = take (vsize v) (cells (Get new_items)) @ [x]"
      unfolding p by (intro take_Suc_update) simp
    with v' p ni le show ?thesis by (simp add: vector_inv_def elements_def Get_def)
  next
    case False
    with r x obtain p where
      a: "assign_at (Get (items v)) (vsize v) x E = Done (p, E')" and
      v': "v' = (with_block v p)\<lparr>vsize := vsize v + 1\<rparr>"
      by (auto simp: PushBack_copy_def Let_def split: outcome.splits)
    from assign_at_Done [OF a] have
      p: "vsize v < length (cells (Get (items v)))" "cells p = (cells (Get (items v)))[vsize v := x]"
      by simp_all
    then have "take (Suc (vsize v)) (cells p) = take (vsize v) (cells (Get (items v))) @ [x]"
      by (simp add: take_Suc_update)
    with v' p cap show ?thesis by (simp add: vector_inv_def elements_def with_block_def Get_def)
  qed
qed

lemma ResizeCapacity_Done:
  assumes r: "ResizeCapacity d mv n v E = Done (v', E')" and inv: "vector_inv v" and le: "vsize v \<le> n"
  shows "vector_inv v' \<and> vsize v' = vsize v \<and> capacity v' = n \<and> elements v' = elements v"
proof -
  from r obtain tmp_data E1 s' p where
    s: "ArrayPtr_size d n E = Done (tmp_data, E1)" and
    m: "std_move mv (Get (items v)) 0 (vsize v) (Get tmp_data) 0 E1 = Done (s', p, E')" and
    v': "v' = v\<lparr>items := tmp_data\<lparr>raw_ptr := p\<rparr>, capacity := n\<rparr>"
    by (auto simp: ResizeCapacity_def ArrayPtr_move_assign_eq split: outcome.splits)
  from ArrayPtr_size_Done [OF s] have ni: "length (cells (Get tmp_data)) = n" by (simp add: Get_def)
  from inv have cap: "vsize v \<le> length (cells (Get (items v)))" by (simp add: vector_inv_def)
  from std_move_Done [OF m] ni
  have p: "length (cells p) = n" "\<forall>i < vsize v. cells p ! i = cells (Get (items v)) ! i"
    using le by auto
  have "take (vsize v) (cells p) = take (vsize v) (cells (Get (items v)))"
    using p cap le by (intro take_eq_nth) simp_all
  with v' p le show ?thesis by (simp add: vector_inv_def elements_def Get_def)
qed

lemma PushBack_move_Done:
  assumes r: "PushBack_move d mv (Value x) v E = Done (v', E')" and inv: "vector_inv v"
  shows "vector_inv v' \<and> vsize v' = vsize v + 1 \<and> elements v' = elements v @ [x]"
proof -
  let ?n = "if vsize v = 0 then 1 else vsize v * 2"
  from r obtain v1 E1 where
    g: "(if capacity v = vsize v then ResizeCapacity d mv ?n v E else Done (v, E)) = Done (v1, E1)"
    by (auto simp: PushBack_move_def split: outcome.splits)
  have v1: "vector_inv v1 \<and> vsize v1 = vsize v \<and> vsize v < capacity v1 \<and> elements v1 = elements v"
  proof (cases "capacity v = vsize v")
    case True
    have "vsize v \<le> ?n" "vsize v < ?n" by simp_all
    with True g ResizeCapacity_Done [of d mv ?n v E v1 E1] inv show ?thesis by simp
  next
    case False
    with g inv show ?thesis by (auto simp: vector_inv_def)
  qed
  from r g obtain p where
    a: "assign_at (Get (items v1)) (vsize v1) x E1 = Done (p, E')" and
    v': "v' = with_block (v1\<lparr>vsize := vsize v1 + 1\<rparr>) p"
    by (auto simp: PushBack_move_def Let_def Get_def move_arg_within_Value split: outcome.splits)
  from v1 have inv1: "vector_inv v1" and sz: "vsize v1 = vsize v" and el: "elements v1 = elements v"
    by simp_all
  from assign_at_Done [OF a] have
    p: "vsize v1 < length (cells (Get (items v1)))" "cells p = (cells (Get (items v1)))[vsize v1 := x]"
    by simp_all
  then have "take (Suc (vsize v1)) (cells p) = take (vsize v1) (cells (Get (items v1))) @ [x]"
    by (simp add: take_Suc_update)
  then have e: "take (Suc (vsize v1)) (cells p) = elements v @ [x]"
    using el by (simp add: elements_def)
  from v' have f: "vsize v' = Suc (vsize v1)" "capacity v' = capacity v1" "Get (items v') = p"
    by (simp_all add: with_block_def Get_def)
  from inv1 p have "vector_inv v'" using f by (simp add: vector_inv_def)
  moreover have "elements v' = elements v @ [x]" using e f by (simp add: elements_def)
  ultimately show ?thesis using f sz by simp
qed

text \<open>
  The move constructor hands over the buffer, the size and the capacity and clears the
  size of its source.  The source keeps its capacity without a buffer, so it is outside
  the invariant unless its capacity was 0.
\<close>

lemma SimpleVector_move_eq:
  "SimpleVector_move other =
     (\<lparr>items = items other, vsize = vsize other, capacity = capacity other\<rparr>,
      \<lparr>items = ArrayPtr_default, vsize = 0, capacity = capacity other\<rparr>)"
  by (cases other) (simp add: SimpleVector_move_def ArrayPtr_move_def ArrayPtr_move_assign_eq Clear_def)

lemma SimpleVector_move_source:
  "vector_inv (snd (SimpleVector_move other)) = (capacity other = 0)"
  by (auto simp: SimpleVector_move_eq vector_inv_def ArrayPtr_default_def Get_def)

text \<open>A completed move assignment leaves the size and the capacity of its source as they were.\<close>

lemma move_assign_source_size:
  "move_assign d mv this (Other rhs) E = Done (this', rhs', E') \<Longrightarrow>
     \<exists>r. rhs' = Other r \<and> vsize r = vsize rhs \<and> capacity r = capacity rhs"
  by (auto simp: move_assign_def with_block_def split: if_splits outcome.splits)

end
